theory Spec2Isabelle
  imports Main "HOL-Library.Word"
begin

unbundle bit_operations_syntax

section \<open>The UDP layer of the network stack (src/src/udp.c)\<close>

text \<open>
  The file \<^verbatim>\<open>udp.c\<close> is embedded function by function. It is written against headers that
  are not part of the sources (\<^verbatim>\<open>udp.h\<close>, \<^verbatim>\<open>ip.h\<close>, \<^verbatim>\<open>icmp.h\<close> and what they include): the
  packet buffer and its four operations, the table of handlers, the checksum primitive, the
  byte swap and some constants. Each of these is modelled from the specification and marked
  so. The functions of \<^verbatim>\<open>udp.c\<close> themselves follow the C text statement by statement.
\<close>

subsection \<open>Bytes, words and memory\<close>

type_synonym u8 = "8 word"
type_synonym u16 = "16 word"

text \<open>
  Memory is a store from addresses to bytes. Address 0 stands for the first byte of the array
  behind a packet buffer, so a buffer whose \<open>data\<close> pointer is at address \<open>a\<close> has \<open>a\<close> bytes
  of head-room.
\<close>

type_synonym mem = "nat \<Rightarrow> u8"

text \<open>Reading \<open>n\<close> bytes at address \<open>a\<close>, and \<^verbatim>\<open>memcpy\<close> of a byte sequence to address \<open>a\<close>.\<close>

definition peek :: "mem \<Rightarrow> nat \<Rightarrow> nat \<Rightarrow> u8 list" where
  "peek m a n = map m [a ..< a + n]"

definition poke :: "mem \<Rightarrow> nat \<Rightarrow> u8 list \<Rightarrow> mem" where
  "poke m a bs = (\<lambda>i. if a \<le> i \<and> i < a + length bs then bs ! (i - a) else m i)"

text \<open>
  Modelled from the spec: the host stores a \<^verbatim>\<open>uint16_t\<close> with its low byte first. The spec
  has every header field big-endian on the wire and has the code convert a port "to host
  order" with the byte swap, so host order is the other one.
\<close>

definition bytes16 :: "u16 \<Rightarrow> u8 list" where
  "bytes16 x = [ucast x, ucast (drop_bit 8 x)]"

definition load16 :: "mem \<Rightarrow> nat \<Rightarrow> u16" where
  "load16 m a = word_cat (m (a + 1)) (m a)"

definition store16 :: "mem \<Rightarrow> nat \<Rightarrow> u16 \<Rightarrow> mem" where
  "store16 m a x = poke m a (bytes16 x)"

text \<open>
  Modelled from the spec: the macro \<^verbatim>\<open>swap16\<close> (not in the sources) exchanges the two bytes
  of a 16-bit value; it is how the code moves between host order and the big-endian wire.
\<close>

definition swap16 :: "u16 \<Rightarrow> u16" where
  "swap16 x = push_bit 8 (x AND 0xFF) OR (drop_bit 8 x AND 0xFF)"

text \<open>An IPv4 address: \<^verbatim>\<open>uint8_t[NET_IP_LEN]\<close>, four bytes.\<close>

datatype ip_addr = Ip_addr u8 u8 u8 u8

fun ip_bytes :: "ip_addr \<Rightarrow> u8 list" where
  "ip_bytes (Ip_addr a b c d) = [a, b, c, d]"

subsection \<open>Constants of the missing headers\<close>

text \<open>
  Modelled from the spec: the UDP header has 8 bytes, the pseudo-header 12, the protocol
  identifier of UDP is 17. The size of \<^verbatim>\<open>ip_hdr_t\<close> (20, an IPv4 header without options) and
  the ICMP code "port unreachable" (3) are the values of the IPv4 and ICMP standards; the spec
  names them without giving a number.
\<close>

definition sizeof_udp_hdr_t :: nat where "sizeof_udp_hdr_t = 8"
definition sizeof_udp_peso_hdr_t :: nat where "sizeof_udp_peso_hdr_t = 12"
definition sizeof_ip_hdr_t :: nat where "sizeof_ip_hdr_t = 20"
definition NET_PROTOCOL_UDP :: u8 where "NET_PROTOCOL_UDP = 17"
definition ICMP_CODE_PORT_UNREACH :: u8 where "ICMP_CODE_PORT_UNREACH = 3"

subsection \<open>The packet buffer\<close>

text \<open>
  \<^verbatim>\<open>buf_t\<close>: the code reads \<^verbatim>\<open>buf->len\<close> and \<^verbatim>\<open>buf->data\<close>; \<open>store\<close> is the memory \<open>data\<close>
  points into. The bytes a caller observes are the \<open>len\<close> bytes at \<open>data\<close>.
\<close>

record buf_t =
  len :: nat
  data :: nat
  store :: mem

definition contents :: "buf_t \<Rightarrow> u8 list" where
  "contents buf = peek (store buf) (data buf) (len buf)"

text \<open>
  Modelled from the spec: the four buffer operations (\<^verbatim>\<open>buf.c\<close> is not in the sources). The
  spec describes "a mutable byte sequence with logical head-room, supporting push/pop of a
  fixed-size header and of a single padding byte at the tail"; pushing a header moves \<open>data\<close>
  down into the head-room and keeps the bytes found there, popping moves it up and leaves the
  bytes behind, padding writes zero bytes after the tail. The spec bounds the head-room only
  and says nothing of what a push without head-room does: here it leaves the buffer as it
  is, and so does a pop of more bytes than the buffer holds. \<^verbatim>\<open>udp.c\<close> ignores what the
  operations return.
\<close>

definition buf_add_header :: "buf_t \<Rightarrow> nat \<Rightarrow> buf_t" where
  "buf_add_header buf n =
     (if data buf < n then buf else buf\<lparr>len := len buf + n, data := data buf - n\<rparr>)"

definition buf_remove_header :: "buf_t \<Rightarrow> nat \<Rightarrow> buf_t" where
  "buf_remove_header buf n =
     (if len buf < n then buf else buf\<lparr>len := len buf - n, data := data buf + n\<rparr>)"

definition buf_add_padding :: "buf_t \<Rightarrow> nat \<Rightarrow> buf_t" where
  "buf_add_padding buf n =
     buf\<lparr>store := poke (store buf) (data buf + len buf) (replicate n 0), len := len buf + n\<rparr>"

definition buf_remove_padding :: "buf_t \<Rightarrow> nat \<Rightarrow> buf_t" where
  "buf_remove_padding buf n = (if len buf < n then buf else buf\<lparr>len := len buf - n\<rparr>)"

text \<open>
  Modelled from the spec: \<^verbatim>\<open>buf_init\<close> (not in the sources) makes a buffer of \<open>n\<close> bytes;
  "the allocator that sizes buffers is an external collaborator responsible for reserving
  sufficient head-room". The head-room it reserves is the parameter \<open>room\<close>.
\<close>

definition buf_init :: "nat \<Rightarrow> buf_t \<Rightarrow> nat \<Rightarrow> buf_t" where
  "buf_init room buf n = buf\<lparr>len := n, data := room\<rparr>"

definition memcpy_buf :: "buf_t \<Rightarrow> u8 list \<Rightarrow> buf_t" where
  "memcpy_buf buf bs = buf\<lparr>store := poke (store buf) (data buf) bs\<rparr>"

subsection \<open>The checksum primitive\<close>

text \<open>
  Modelled from the spec: \<^verbatim>\<open>checksum16\<close> (not in the sources), "the standard one's-complement
  16-bit-word checksum" over a byte region: the 16-bit words of the region (as the host reads
  them, a last odd byte alone) are added up, the carries above bit 15 are added back until
  none is left, and the result is complemented. The sum is taken in the natural numbers.
\<close>

fun sum16 :: "u8 list \<Rightarrow> nat" where
  "sum16 (a # b # bs) = unat a + 256 * unat b + sum16 bs"
| "sum16 [a] = unat a"
| "sum16 [] = 0"

function fold16 :: "nat \<Rightarrow> nat" where
  "fold16 s = (if s div 65536 = 0 then s else fold16 (s mod 65536 + s div 65536))"
  by pat_completeness auto
termination
proof (relation "measure id")
  fix s :: nat
  assume "s div 65536 \<noteq> 0"
  then have "0 < s div 65536" by simp
  moreover have "s = 65536 * (s div 65536) + s mod 65536" by simp
  ultimately have "s mod 65536 + s div 65536 < s" by linarith
  then show "(s mod 65536 + s div 65536, s) \<in> measure id" by simp
qed simp

declare fold16.simps [simp del]

definition checksum16 :: "u8 list \<Rightarrow> u16" where
  "checksum16 bs = NOT (of_nat (fold16 (sum16 bs)))"

subsection \<open>The headers\<close>

text \<open>
  Modelled from the spec: \<^verbatim>\<open>udp_hdr_t\<close> and \<^verbatim>\<open>udp_peso_hdr_t\<close> (declared in \<^verbatim>\<open>udp.h\<close>,
  not in the sources), with the fields \<^verbatim>\<open>udp.c\<close> assigns, in the order of the wire format
  the spec gives ("src\_port(2) | dst\_port(2) | length(2) | checksum(2)" and "src\_ip(4) |
  dst\_ip(4) | zero(1) | protocol(1) | udp\_length(2)"), and their bytes in memory. The
  fields \<^verbatim>\<open>checksum16\<close> of the UDP header and \<^verbatim>\<open>src_ip\<close>, \<^verbatim>\<open>dst_ip\<close>, \<^verbatim>\<open>total_len16\<close> of
  the pseudo-header carry a prefix here, since their names are taken.
\<close>

record udp_hdr_t =
  src_port16 :: u16
  dst_port16 :: u16
  total_len16 :: u16
  hdr_checksum16 :: u16

definition udp_hdr_bytes :: "udp_hdr_t \<Rightarrow> u8 list" where
  "udp_hdr_bytes h =
     bytes16 (src_port16 h) @ bytes16 (dst_port16 h) @ bytes16 (total_len16 h) @
     bytes16 (hdr_checksum16 h)"

record udp_peso_hdr_t =
  peso_src_ip :: ip_addr
  peso_dst_ip :: ip_addr
  placeholder :: u8
  protocol :: u8
  peso_total_len16 :: u16

definition udp_peso_hdr_bytes :: "udp_peso_hdr_t \<Rightarrow> u8 list" where
  "udp_peso_hdr_bytes p =
     ip_bytes (peso_src_ip p) @ ip_bytes (peso_dst_ip p) @ [placeholder p, protocol p] @
     bytes16 (peso_total_len16 p)"

text \<open>Offsets of the fields of \<^verbatim>\<open>udp_hdr_t\<close> behind a pointer to the header.\<close>

definition off_src_port16 :: nat where "off_src_port16 = 0"
definition off_dst_port16 :: nat where "off_dst_port16 = 2"
definition off_total_len16 :: nat where "off_total_len16 = 4"
definition off_checksum16 :: nat where "off_checksum16 = 6"

subsection \<open>udp\_checksum\<close>

text \<open>
  \<^verbatim>\<open>udp_checksum\<close> returns the checksum and leaves the buffer changed in place; the model
  returns both. The subtraction \<^verbatim>\<open>buf->len - sizeof(udp_peso_hdr_t)\<close> is unsigned in C and
  then cut to 16 bits, which is the integer difference modulo \<open>2 ^ 16\<close>.
\<close>

definition udp_checksum :: "buf_t \<Rightarrow> ip_addr \<Rightarrow> ip_addr \<Rightarrow> u16 \<times> buf_t" where
  "udp_checksum buf src_ip dst_ip =
     (let buf1 = buf_add_header buf sizeof_ip_hdr_t;
          ip_hdr = peek (store buf1) (data buf1) sizeof_ip_hdr_t;
          buf2 = buf_remove_header buf1 (sizeof_ip_hdr_t - sizeof_udp_peso_hdr_t);
          udp_peso_hdr = \<lparr>peso_src_ip = src_ip, peso_dst_ip = dst_ip, placeholder = 0,
            protocol = NET_PROTOCOL_UDP,
            peso_total_len16 =
              swap16 (word_of_int (int (len buf2) - int sizeof_udp_peso_hdr_t))\<rparr>;
          buf3 = memcpy_buf buf2 (udp_peso_hdr_bytes udp_peso_hdr);
          paddled = (len buf3 mod 2 \<noteq> 0);
          buf4 = (if paddled then buf_add_padding buf3 1 else buf3);
          checksum = checksum16 (contents buf4);
          buf5 = buf_add_header buf4 sizeof_udp_hdr_t;
          buf6 = memcpy_buf buf5 ip_hdr;
          buf7 = buf_remove_header buf6 sizeof_ip_hdr_t;
          buf8 = (if paddled then buf_remove_padding buf7 1 else buf7)
      in (checksum, buf8))"

subsection \<open>The table of handlers\<close>

text \<open>
  Modelled from the spec: \<^verbatim>\<open>map_t\<close> with \<^verbatim>\<open>map_set\<close>, \<^verbatim>\<open>map_get\<close> and
  \<^verbatim>\<open>map_delete\<close> (not in the sources), for the table \<^verbatim>\<open>udp_table\<close> from 16-bit ports to
  handlers. A handler (\<^verbatim>\<open>udp_handler_t\<close>, a pointer to a function) is an opaque value,
  the address of the function. Registering "fails only if the
  underlying storage cannot grow (resource exhaustion); otherwise installs/overwrites the
  entry": whether the storage can grow is the input \<open>grows\<close>, the result is the status
  (0, or -1 at failure, as the comment of \<^verbatim>\<open>udp_open\<close> has it) and the table. Removing
  an absent port is "a no-op (not an error)".
\<close>

type_synonym udp_handler_t = nat

type_synonym map_t = "u16 \<rightharpoonup> udp_handler_t"

definition map_set :: "bool \<Rightarrow> map_t \<Rightarrow> u16 \<Rightarrow> udp_handler_t \<Rightarrow> int \<times> map_t" where
  "map_set grows m k v = (if grows then (0, m(k \<mapsto> v)) else (- 1, m))"

definition map_get :: "map_t \<Rightarrow> u16 \<Rightarrow> udp_handler_t option" where
  "map_get m k = m k"

definition map_delete :: "map_t \<Rightarrow> u16 \<Rightarrow> map_t" where
  "map_delete m k = m(k := None)"

subsection \<open>Calls out of the UDP layer\<close>

text \<open>
  What \<^verbatim>\<open>udp.c\<close> calls and does not define: a registered handler, \<^verbatim>\<open>icmp_unreachable\<close>
  and \<^verbatim>\<open>ip_out\<close>. A function of the model returns the list of the calls it made, in
  order, each with its arguments: a handler gets the bytes at \<^verbatim>\<open>buf->data\<close>, their number,
  the sender's address and a 16-bit port; the other two get the buffer (here its observable
  bytes), an address and a code or protocol.
\<close>

datatype call =
  Handler udp_handler_t "u8 list" nat ip_addr u16
| Icmp_unreachable "u8 list" ip_addr u8
| Ip_out "u8 list" ip_addr u8

subsection \<open>udp\_in\<close>

text \<open>
  The globals \<^verbatim>\<open>udp_table\<close> and \<^verbatim>\<open>net_if_ip\<close> are parameters. \<open>udp_hdr\<close> is the address
  \<^verbatim>\<open>buf->data\<close> had on entry; the last line reads \<^verbatim>\<open>udp_hdr->src_port16\<close> through it after
  the header was removed. The local variables \<^verbatim>\<open>checksum16\<close> and \<^verbatim>\<open>dst_port16\<close> of the C
  text are \<open>checksum\<close> and \<open>dst_port16'\<close> here. The result is the buffer as it is when
  \<^verbatim>\<open>udp_in\<close> returns or makes its call, and the calls made.
\<close>

definition udp_in :: "map_t \<Rightarrow> ip_addr \<Rightarrow> buf_t \<Rightarrow> ip_addr \<Rightarrow> buf_t \<times> call list" where
  "udp_in udp_table net_if_ip buf src_ip =
     (if len buf < sizeof_udp_hdr_t then (buf, [])
      else
        let udp_hdr = data buf;
            checksum = load16 (store buf) (udp_hdr + off_checksum16);
            buf1 = buf\<lparr>store := store16 (store buf) (udp_hdr + off_checksum16) 0\<rparr>;
            (computed, buf2) = udp_checksum buf1 src_ip net_if_ip
        in if checksum \<noteq> computed then (buf2, [])
           else
             let buf3 = buf2\<lparr>store := store16 (store buf2) (udp_hdr + off_checksum16) checksum\<rparr>;
                 dst_port16' = swap16 (load16 (store buf3) (udp_hdr + off_dst_port16))
             in case map_get udp_table dst_port16' of
                  None \<Rightarrow>
                    let buf4 = buf_add_header buf3 sizeof_ip_hdr_t
                    in (buf4, [Icmp_unreachable (contents buf4) src_ip ICMP_CODE_PORT_UNREACH])
                | Some handler \<Rightarrow>
                    let buf4 = buf_remove_header buf3 sizeof_udp_hdr_t
                    in (buf4, [Handler handler (contents buf4) (len buf4) src_ip
                                 (load16 (store buf4) (udp_hdr + off_src_port16))]))"

subsection \<open>udp\_out\<close>

text \<open>
  \<^verbatim>\<open>swap16(buf->len)\<close> takes the low 16 bits of the length. The header is copied into the
  buffer twice: with a zero checksum field before the checksum is computed, with the computed
  value after.
\<close>

definition udp_out :: "ip_addr \<Rightarrow> buf_t \<Rightarrow> u16 \<Rightarrow> ip_addr \<Rightarrow> u16 \<Rightarrow> buf_t \<times> call list" where
  "udp_out net_if_ip buf src_port dst_ip dst_port =
     (let buf1 = buf_add_header buf sizeof_udp_hdr_t;
          udp_hdr = \<lparr>src_port16 = swap16 src_port, dst_port16 = swap16 dst_port,
            total_len16 = swap16 (of_nat (len buf1)), hdr_checksum16 = 0\<rparr>;
          buf2 = memcpy_buf buf1 (udp_hdr_bytes udp_hdr);
          (computed, buf3) = udp_checksum buf2 net_if_ip dst_ip;
          udp_hdr' = udp_hdr\<lparr>hdr_checksum16 := computed\<rparr>;
          buf4 = memcpy_buf buf3 (udp_hdr_bytes udp_hdr')
      in (buf4, [Ip_out (contents buf4) dst_ip NET_PROTOCOL_UDP]))"

subsection \<open>udp\_open, udp\_close, udp\_send\<close>

definition udp_open :: "bool \<Rightarrow> map_t \<Rightarrow> u16 \<Rightarrow> udp_handler_t \<Rightarrow> int \<times> map_t" where
  "udp_open grows udp_table port handler = map_set grows udp_table port handler"

definition udp_close :: "map_t \<Rightarrow> u16 \<Rightarrow> map_t" where
  "udp_close udp_table port = map_delete udp_table port"

text \<open>
  \<^verbatim>\<open>udp_send\<close> copies \<^verbatim>\<open>len\<close> bytes from \<^verbatim>\<open>data\<close> into the global \<^verbatim>\<open>txbuf\<close>; the bytes are
  the list \<open>bytes\<close>, of which the first \<open>n\<close> are taken.
\<close>

definition udp_send ::
  "nat \<Rightarrow> ip_addr \<Rightarrow> buf_t \<Rightarrow> u8 list \<Rightarrow> u16 \<Rightarrow> u16 \<Rightarrow> ip_addr \<Rightarrow> u16 \<Rightarrow> buf_t \<times> call list" where
  "udp_send room net_if_ip txbuf bytes n src_port dst_ip dst_port =
     (let txbuf1 = buf_init room txbuf (unat n);
          txbuf2 = memcpy_buf txbuf1 (take (unat n) bytes)
      in udp_out net_if_ip txbuf2 src_port dst_ip dst_port)"

section \<open>Notions used to state the properties\<close>

text \<open>The two bytes of a 16-bit value in network order, high byte first.\<close>

definition be16 :: "u16 \<Rightarrow> u8 list" where
  "be16 x = [ucast (drop_bit 8 x), ucast x]"

text \<open>
  The wire format of the spec: the UDP header is "src\_port(2) | dst\_port(2) | length(2) |
  checksum(2)", every field big-endian but the checksum, which is given here as the 16-bit
  value the host holds. The region the checksum is taken over is the pseudo-header
  "src\_ip(4) | dst\_ip(4) | zero(1) | protocol=17(1) | udp\_length(2)", then the datagram,
  then one zero byte if the datagram has an odd number of bytes.
\<close>

definition udp_header :: "u16 \<Rightarrow> u16 \<Rightarrow> u16 \<Rightarrow> u16 \<Rightarrow> u8 list" where
  "udp_header src_port dst_port total_len checksum =
     be16 src_port @ be16 dst_port @ be16 total_len @ bytes16 checksum"

definition udp_view :: "u8 list \<Rightarrow> ip_addr \<Rightarrow> ip_addr \<Rightarrow> u8 list" where
  "udp_view dgram src_ip dst_ip =
     ip_bytes src_ip @ ip_bytes dst_ip @ [0, 17] @ be16 (of_nat (length dgram)) @ dgram @
     (if length dgram mod 2 \<noteq> 0 then [0] else [])"

text \<open>
  The datagram the spec has \<open>send\<close> build: the header with the total length "header size +
  payload length" in 16 bits and the checksum of the region above, taken with the checksum
  field zero.
\<close>

definition udp_datagram :: "ip_addr \<Rightarrow> ip_addr \<Rightarrow> u16 \<Rightarrow> u16 \<Rightarrow> u8 list \<Rightarrow> u8 list" where
  "udp_datagram src_ip dst_ip src_port dst_port payload =
     (let n = of_nat (8 + length payload);
          checksum =
            checksum16 (udp_view (udp_header src_port dst_port n 0 @ payload) src_ip dst_ip)
      in udp_header src_port dst_port n checksum @ payload)"

text \<open>A 16-bit field of the wire read in network order, as the sender meant it.\<close>

definition be_load16 :: "mem \<Rightarrow> nat \<Rightarrow> u16" where
  "be_load16 m a = word_cat (m a) (m (a + 1))"

text \<open>
  The memory of a buffer after a checksum computation: as before, except that the byte after
  the tail is zero when the length is odd (the padding byte, outside the observable bytes).
\<close>

definition pad_store :: "buf_t \<Rightarrow> mem" where
  "pad_store buf =
     (if len buf mod 2 \<noteq> 0 then (store buf)(data buf + len buf := 0) else store buf)"

text \<open>
  The check of \<^verbatim>\<open>udp_in\<close> (lines 80 to 82 of \<^verbatim>\<open>udp.c\<close>): the checksum field is read, set to
  zero in place, and compared with what \<^verbatim>\<open>udp_checksum\<close> returns for the sender's address
  and the address of the local interface.
\<close>

definition zero_checksum :: "buf_t \<Rightarrow> buf_t" where
  "zero_checksum buf = buf\<lparr>store := store16 (store buf) (data buf + off_checksum16) 0\<rparr>"

definition checksum_ok :: "buf_t \<Rightarrow> ip_addr \<Rightarrow> ip_addr \<Rightarrow> bool" where
  "checksum_ok buf src_ip net_if_ip \<longleftrightarrow>
     load16 (store buf) (data buf + off_checksum16) =
       fst (udp_checksum (zero_checksum buf) src_ip net_if_ip)"

text \<open>The weight of the byte at an index in the sum of 16-bit words.\<close>

definition wt :: "nat \<Rightarrow> nat" where
  "wt i = (if even i then 1 else 256)"

section \<open>Example inputs\<close>

text \<open>
  Two hosts, A (10.0.0.1) and B (10.0.0.2); an empty transmit buffer; the buffer the network
  layer hands to \<^verbatim>\<open>udp_in\<close> after it removed an IP header \<open>ip_hdr\<close> from in front of the
  datagram \<open>dgram\<close> (the header stays in the head-room); an IPv4 header from A to B; a table
  with the handler at address 7 on port 53.
\<close>

definition ip_A :: ip_addr where "ip_A = Ip_addr 10 0 0 1"
definition ip_B :: ip_addr where "ip_B = Ip_addr 10 0 0 2"

definition txbuf0 :: buf_t where
  "txbuf0 = \<lparr>len = 0, data = 0, store = (\<lambda>_. 0)\<rparr>"

definition rx_buf :: "u8 list \<Rightarrow> u8 list \<Rightarrow> buf_t" where
  "rx_buf ip_hdr dgram =
     \<lparr>len = length dgram, data = length ip_hdr,
      store = (\<lambda>i. if i < length (ip_hdr @ dgram) then (ip_hdr @ dgram) ! i else 0)\<rparr>"

definition ip_hdr_AB :: "u8 list" where
  "ip_hdr_AB = [0x45, 0, 0, 30, 0, 0, 0, 0, 64, 17, 0x66, 0xCD, 10, 0, 0, 1, 10, 0, 0, 2]"

definition table53 :: map_t where
  "table53 = snd (udp_open True Map.empty 53 7)"

text \<open>
  The datagram from port 12345 to port 53 with the payload "hi" and its checksum, and the
  same with one bit of the last byte flipped.
\<close>

definition dgram_hi :: "u8 list" where
  "dgram_hi = [0x30, 0x39, 0, 53, 0, 10, 83, 0, 0x68, 0x69]"

definition dgram_hk :: "u8 list" where
  "dgram_hk = [0x30, 0x39, 0, 53, 0, 10, 83, 0, 0x68, 0x6B]"

text \<open>A buffer of nine bytes with twenty bytes of head-room, every byte its own address.\<close>

definition buf9 :: buf_t where
  "buf9 = \<lparr>len = 9, data = 20, store = (\<lambda>i. of_nat i)\<rparr>"

text \<open>
  The same datagram with 99 in its length field (it has 10 bytes) and the checksum that
  fits.
\<close>

definition dgram_len99 :: "u8 list" where
  "dgram_len99 = [0x30, 0x39, 0, 53, 0, 99, 82, 167, 0x68, 0x69]"

text \<open>
  The same datagram sent without a checksum (the field is zero); the header of an empty
  datagram from port 60326 to port 53, whose checksum from A to B is zero; the transmit
  buffer as \<^verbatim>\<open>udp_send\<close> prepares it, with \<open>room\<close> bytes of head-room; a buffer of 65528
  bytes.
\<close>

definition dgram_nock :: "u8 list" where
  "dgram_nock = [0x30, 0x39, 0, 53, 0, 10, 0, 0, 0x68, 0x69]"

definition dgram_ck0 :: "u8 list" where
  "dgram_ck0 = [0xEB, 0xA6, 0, 53, 0, 8, 0, 0]"

definition tx_buf :: "nat \<Rightarrow> u8 list \<Rightarrow> buf_t" where
  "tx_buf room payload = memcpy_buf (buf_init room txbuf0 (length payload)) payload"

definition buf_big :: buf_t where
  "buf_big = \<lparr>len = 65528, data = 28, store = (\<lambda>_. 0)\<rparr>"

section \<open>Memory and words\<close>

lemma length_peek [simp]: "length (peek m a n) = n"
  by (simp add: peek_def)

lemma nth_peek [simp]: "i < n \<Longrightarrow> peek m a n ! i = m (a + i)"
  by (simp add: peek_def)

lemma length_contents [simp]: "length (contents buf) = len buf"
  by (simp add: contents_def)

lemma poke_in: "a \<le> i \<Longrightarrow> i < a + length bs \<Longrightarrow> poke m a bs i = bs ! (i - a)"
  by (simp add: poke_def)

lemma poke_out: "i < a \<or> a + length bs \<le> i \<Longrightarrow> poke m a bs i = m i"
  by (auto simp: poke_def)

lemma peek_append: "peek m a (n + k) = peek m a n @ peek m (a + n) k"
  by (rule nth_equalityI) (auto simp: nth_append)

lemma peek_cong: "(\<And>i. i < n \<Longrightarrow> m (a + i) = m' (a + i)) \<Longrightarrow> peek m a n = peek m' a n"
  by (rule nth_equalityI) simp_all

lemma peek_poke_same: "peek (poke m a bs) a (length bs) = bs"
  by (rule nth_equalityI) (simp_all add: poke_in)

lemma peek_poke_out:
  "a + n \<le> c \<or> c + length bs \<le> a \<Longrightarrow> peek (poke m c bs) a n = peek m a n"
  by (rule peek_cong) (auto simp: poke_out)

lemma poke_restore:
  assumes "a \<le> c" "c + length bs \<le> a + k"
  shows "poke (poke m c bs) a (peek m a k) = m"
proof
  fix i
  show "poke (poke m c bs) a (peek m a k) i = m i"
  proof (cases "a \<le> i \<and> i < a + k")
    case True
    then have "poke (poke m c bs) a (peek m a k) i = peek m a k ! (i - a)"
      by (simp add: poke_in)
    also have "\<dots> = m (a + (i - a))" using True by (intro nth_peek) auto
    finally show ?thesis using True by simp
  next
    case False
    then have "poke (poke m c bs) a (peek m a k) i = poke m c bs i"
      by (intro poke_out) auto
    also have "\<dots> = m i" using False assms by (intro poke_out) auto
    finally show ?thesis .
  qed
qed

lemma poke_pad_restore:
  assumes "a \<le> c" "c + length bs \<le> a + k" "a + k \<le> t"
  shows "poke (poke (poke m c bs) t [0]) a (peek m a k) = m(t := 0)"
proof
  fix i
  show "poke (poke (poke m c bs) t [0]) a (peek m a k) i = (m(t := 0)) i"
  proof (cases "a \<le> i \<and> i < a + k")
    case True
    then have "poke (poke (poke m c bs) t [0]) a (peek m a k) i = peek m a k ! (i - a)"
      by (simp add: poke_in)
    also have "\<dots> = m (a + (i - a))" using True by (intro nth_peek) auto
    finally show ?thesis using True assms by simp
  next
    case False
    then have "poke (poke (poke m c bs) t [0]) a (peek m a k) i = poke (poke m c bs) t [0] i"
      by (intro poke_out) auto
    also have "\<dots> = (if i = t then 0 else poke m c bs i)"
      by (simp add: poke_def)
    also have "poke m c bs i = m i" using False assms by (intro poke_out) auto
    finally show ?thesis by simp
  qed
qed

lemma peek_view:
  assumes "length P = k" "k \<le> a"
  shows "peek (poke m (a - k) P) (a - k) (k + n) = P @ peek m a n"
proof -
  have "peek (poke m (a - k) P) (a - k) (k + n) =
      peek (poke m (a - k) P) (a - k) k @ peek (poke m (a - k) P) (a - k + k) n"
    by (rule peek_append)
  moreover have "peek (poke m (a - k) P) (a - k) k = P"
    using peek_poke_same [of m "a - k" P] assms by simp
  moreover have "peek (poke m (a - k) P) (a - k + k) n = peek m (a - k + k) n"
    using assms by (intro peek_poke_out) simp
  ultimately show ?thesis using assms by simp
qed

lemma peek_view_pad:
  assumes "length P = k" "k \<le> a"
  shows "peek (poke (poke m (a - k) P) (a + n) [0]) (a - k) (k + n + 1) = P @ peek m a n @ [0]"
proof -
  let ?m = "poke (poke m (a - k) P) (a + n) [0]"
  have "peek ?m (a - k) (k + n + 1) = peek ?m (a - k) (k + n) @ peek ?m (a - k + (k + n)) 1"
    by (rule peek_append)
  moreover have "peek ?m (a - k) (k + n) = peek (poke m (a - k) P) (a - k) (k + n)"
    using assms by (intro peek_poke_out) simp
  moreover have "peek ?m (a - k + (k + n)) 1 = [0]"
    using peek_poke_same [of "poke m (a - k) P" "a + n" "[0]"] assms by simp
  ultimately show ?thesis using peek_view [OF assms, of m n] by simp
qed

lemma length_bytes16 [simp]: "length (bytes16 x) = 2"
  by (simp add: bytes16_def)

lemma length_be16 [simp]: "length (be16 x) = 2"
  by (simp add: be16_def)

lemma length_ip_bytes [simp]: "length (ip_bytes a) = 4"
  by (cases a) simp

lemma length_udp_peso_hdr_bytes [simp]: "length (udp_peso_hdr_bytes p) = 12"
  by (simp add: udp_peso_hdr_bytes_def)

lemma length_udp_hdr_bytes [simp]: "length (udp_hdr_bytes h) = 8"
  by (simp add: udp_hdr_bytes_def)

lemma length_udp_header [simp]: "length (udp_header sp dp n ck) = 8"
  by (simp add: udp_header_def)

lemma ff_mask: "(0xFF :: u16) = mask 8"
  by (simp add: mask_eq_exp_minus_1)

lemma swap16_alt: "swap16 x = push_bit 8 (take_bit 8 x) OR take_bit 8 (drop_bit 8 x)"
  by (simp add: swap16_def ff_mask take_bit_eq_mask)

lemma ucast_swap16_lo: "(ucast (swap16 x) :: u8) = ucast (drop_bit 8 x)"
  unfolding swap16_alt by (rule bit_word_eqI) (auto simp: bit_simps)

lemma ucast_swap16_hi: "(ucast (drop_bit 8 (swap16 x)) :: u8) = ucast x"
  unfolding swap16_alt by (rule bit_word_eqI) (auto simp: bit_simps)

lemma bytes16_swap16: "bytes16 (swap16 x) = be16 x"
  by (simp add: bytes16_def be16_def ucast_swap16_lo ucast_swap16_hi)

lemma word_cat_bytes16: "word_cat (ucast (drop_bit 8 x) :: u8) (ucast x :: u8) = (x :: u16)"
  by (rule bit_word_eqI) (auto simp: bit_simps)

lemma ucast_word_cat_lo: "(ucast (word_cat (b :: u8) (a :: u8) :: u16) :: u8) = a"
  by (rule bit_word_eqI) (auto simp: bit_simps)

lemma ucast_word_cat_hi: "(ucast (drop_bit 8 (word_cat (b :: u8) (a :: u8) :: u16)) :: u8) = b"
  by (rule bit_word_eqI) (auto simp: bit_simps)

lemma bytes16_word_cat: "bytes16 (word_cat (b :: u8) (a :: u8)) = [a, b]"
  by (simp add: bytes16_def ucast_word_cat_lo ucast_word_cat_hi)

section \<open>The checksum primitive detects every change of one byte\<close>

lemma wt_Suc_Suc [simp]: "wt (Suc (Suc i)) = wt i"
  by (simp add: wt_def)

lemma sum16_update:
  "i < length bs \<Longrightarrow> sum16 (bs[i := v]) + wt i * unat (bs ! i) = sum16 bs + wt i * unat v"
proof (induction bs arbitrary: i rule: sum16.induct)
  case (1 a b bs)
  show ?case
  proof (cases i)
    case 0
    then show ?thesis by (simp add: wt_def)
  next
    case (Suc j)
    show ?thesis
    proof (cases j)
      case 0
      with Suc show ?thesis by (simp add: wt_def)
    next
      case (Suc k)
      with \<open>i = Suc j\<close> "1.prems" have "k < length bs" by simp
      from "1.IH" [OF this] show ?thesis
        using Suc \<open>i = Suc j\<close> by simp
    qed
  qed
next
  case (2 a)
  then show ?case by (simp add: wt_def)
next
  case 3
  then show ?case by simp
qed

lemma fold16_less: "fold16 s < 65536"
proof (induction s rule: fold16.induct)
  case (1 s)
  show ?case
  proof (cases "s div 65536 = 0")
    case True
    then have "s < 65536" by (simp add: div_eq_0_iff)
    with True show ?thesis by (simp add: fold16.simps)
  next
    case False
    with 1 show ?thesis by (subst fold16.simps) simp
  qed
qed

lemma fold16_mod: "fold16 s mod 65535 = s mod 65535"
proof (induction s rule: fold16.induct)
  case (1 s)
  show ?case
  proof (cases "s div 65536 = 0")
    case True
    then show ?thesis by (simp add: fold16.simps)
  next
    case False
    have "fold16 s = fold16 (s mod 65536 + s div 65536)"
      using False by (subst fold16.simps) simp
    then have "fold16 s mod 65535 = (s mod 65536 + s div 65536) mod 65535"
      using 1 False by simp
    also have "\<dots> = (s mod 65536 + s div 65536 + 65535 * (s div 65536)) mod 65535"
      by (simp only: mod_mult_self2)
    also have "s mod 65536 + s div 65536 + 65535 * (s div 65536) = s"
      using mult_div_mod_eq [of 65536 s] by linarith
    finally show ?thesis .
  qed
qed

lemma checksum16_eq_imp:
  assumes "checksum16 xs = checksum16 ys"
  shows "sum16 xs mod 65535 = sum16 ys mod 65535"
proof -
  have "(of_nat (fold16 (sum16 xs)) :: u16) = of_nat (fold16 (sum16 ys))"
    using assms by (simp add: checksum16_def)
  then have "unat (of_nat (fold16 (sum16 xs)) :: u16) = unat (of_nat (fold16 (sum16 ys)) :: u16)"
    by simp
  then have "fold16 (sum16 xs) = fold16 (sum16 ys)"
    using fold16_less [of "sum16 xs"] fold16_less [of "sum16 ys"]
    by (simp add: unat_of_nat)
  then show ?thesis
    using fold16_mod [of "sum16 xs"] fold16_mod [of "sum16 ys"] by simp
qed

lemma mod_65535_cancel:
  fixes s s' c d :: nat
  assumes e: "s' + c = s + d" and m: "s' mod 65535 = s mod 65535"
    and b: "c < 65535" "d < 65535"
  shows "c = d"
proof -
  have "int s' mod 65535 = int s mod 65535"
    using m by (metis of_nat_mod of_nat_numeral)
  then have "(65535 :: int) dvd int s' - int s"
    by (simp add: mod_eq_dvd_iff)
  moreover have "int s' - int s = int d - int c"
    using e by linarith
  ultimately have dv: "(65535 :: int) dvd int d - int c" by simp
  show ?thesis
  proof (rule ccontr)
    assume "c \<noteq> d"
    then have "int d - int c \<noteq> 0" by simp
    from dvd_imp_le_int [OF this dv] have "65535 \<le> \<bar>int d - int c\<bar>" by simp
    with b show False by linarith
  qed
qed

lemma checksum16_update_neq:
  assumes "i < length bs" "v \<noteq> bs ! i"
  shows "checksum16 (bs[i := v]) \<noteq> checksum16 bs"
proof
  assume "checksum16 (bs[i := v]) = checksum16 bs"
  then have m: "sum16 (bs[i := v]) mod 65535 = sum16 bs mod 65535"
    by (rule checksum16_eq_imp)
  have e: "sum16 (bs[i := v]) + wt i * unat (bs ! i) = sum16 bs + wt i * unat v"
    using assms(1) by (rule sum16_update)
  have b: "unat v < 256" "unat (bs ! i) < 256"
    using unsigned_less [of v] unsigned_less [of "bs ! i"] by simp_all
  have w: "wt i = 1 \<or> wt i = 256" by (simp add: wt_def)
  have "wt i * unat (bs ! i) = wt i * unat v"
    using e m
  proof (rule mod_65535_cancel)
    show "wt i * unat (bs ! i) < 65535" using w b by auto
    show "wt i * unat v < 65535" using w b by auto
  qed
  then have "unat (bs ! i) = unat v" using w by auto
  then show False using assms(2) by (simp add: word_unat_eq_iff)
qed

section \<open>What udp\_checksum computes and leaves behind\<close>

lemma udp_peso_hdr_bytes_eq:
  "udp_peso_hdr_bytes \<lparr>peso_src_ip = src_ip, peso_dst_ip = dst_ip, placeholder = 0,
      protocol = NET_PROTOCOL_UDP, peso_total_len16 = swap16 x\<rparr> =
   ip_bytes src_ip @ ip_bytes dst_ip @ [0, 17] @ be16 x"
  by (simp add: udp_peso_hdr_bytes_def NET_PROTOCOL_UDP_def bytes16_swap16)

lemma udp_checksum_eq:
  assumes "sizeof_ip_hdr_t \<le> data buf"
  shows "udp_checksum buf src_ip dst_ip =
           (checksum16 (udp_view (contents buf) src_ip dst_ip), buf\<lparr>store := pad_store buf\<rparr>)"
proof (cases buf)
  case (fields n a m)
  have d: "20 \<le> a" using assms fields by (simp add: sizeof_ip_hdr_t_def)
  define P where "P = udp_peso_hdr_bytes \<lparr>peso_src_ip = src_ip, peso_dst_ip = dst_ip,
    placeholder = 0, protocol = NET_PROTOCOL_UDP, peso_total_len16 = swap16 (of_nat n)\<rparr>"
  have lP: "length P = 12" by (simp add: P_def)
  have P: "P = ip_bytes src_ip @ ip_bytes dst_ip @ [0, 17] @ be16 (of_nat n)"
    unfolding P_def by (rule udp_peso_hdr_bytes_eq)
  let ?B1 = "\<lparr>len = n + 20, data = a - 20, store = m\<rparr>"
  let ?B2 = "\<lparr>len = n + 12, data = a - 12, store = m\<rparr>"
  let ?B3 = "\<lparr>len = n + 12, data = a - 12, store = poke m (a - 12) P\<rparr>"
  define ip_hdr where "ip_hdr = peek m (a - 20) 20"
  have b1: "buf_add_header buf sizeof_ip_hdr_t = ?B1"
    using d by (simp add: fields buf_add_header_def sizeof_ip_hdr_t_def)
  have ih: "peek (store ?B1) (data ?B1) sizeof_ip_hdr_t = ip_hdr"
    by (simp add: sizeof_ip_hdr_t_def ip_hdr_def)
  have b2: "buf_remove_header ?B1 (sizeof_ip_hdr_t - sizeof_udp_peso_hdr_t) = ?B2"
    using d by (simp add: buf_remove_header_def sizeof_ip_hdr_t_def sizeof_udp_peso_hdr_t_def)
  have w: "(word_of_int (int (len ?B2) - int sizeof_udp_peso_hdr_t) :: u16) = of_nat n"
    by (simp add: sizeof_udp_peso_hdr_t_def)
  have b3: "memcpy_buf ?B2 P = ?B3"
    by (simp add: memcpy_buf_def)
  have step: "udp_checksum buf src_ip dst_ip =
      (let paddled = (len ?B3 mod 2 \<noteq> 0);
           buf4 = (if paddled then buf_add_padding ?B3 1 else ?B3);
           checksum = checksum16 (contents buf4);
           buf5 = buf_add_header buf4 sizeof_udp_hdr_t;
           buf6 = memcpy_buf buf5 ip_hdr;
           buf7 = buf_remove_header buf6 sizeof_ip_hdr_t;
           buf8 = (if paddled then buf_remove_padding buf7 1 else buf7)
       in (checksum, buf8))"
    unfolding udp_checksum_def Let_def b1 ih b2 w P_def [symmetric] b3
    by (rule refl)
  have cb: "contents \<lparr>len = n, data = a, store = m\<rparr> = peek m a n"
    by (simp add: contents_def)
  show ?thesis
  proof (cases "n mod 2 = 0")
    case True
    have v: "udp_view (peek m a n) src_ip dst_ip = P @ peek m a n"
      using True by (simp add: udp_view_def P)
    have c: "contents ?B3 = P @ peek m a n"
      using peek_view [of P 12 a m n] lP d by (simp add: contents_def add.commute)
    have r: "poke (poke m (a - 12) P) (a - 20) ip_hdr = m"
      unfolding ip_hdr_def using d lP by (intro poke_restore) auto
    have p: "\<not> len ?B3 mod 2 \<noteq> 0" using True by simp presburger
    have "udp_checksum buf src_ip dst_ip = (checksum16 (P @ peek m a n),
        buf_remove_header (memcpy_buf (buf_add_header ?B3 sizeof_udp_hdr_t) ip_hdr) sizeof_ip_hdr_t)"
      unfolding step Let_def if_not_P [OF p] c by (rule refl)
    also have "buf_add_header ?B3 sizeof_udp_hdr_t =
        \<lparr>len = n + 20, data = a - 20, store = poke m (a - 12) P\<rparr>"
      using d by (simp add: buf_add_header_def sizeof_udp_hdr_t_def)
    also have "memcpy_buf \<dots> ip_hdr = \<lparr>len = n + 20, data = a - 20, store = m\<rparr>"
      by (simp add: memcpy_buf_def r)
    also have "buf_remove_header \<dots> sizeof_ip_hdr_t = \<lparr>len = n, data = a, store = m\<rparr>"
      using d by (simp add: buf_remove_header_def sizeof_ip_hdr_t_def)
    finally show ?thesis
      using True by (simp add: cb v fields pad_store_def)
  next
    case False
    let ?B4 = "\<lparr>len = n + 13, data = a - 12, store = poke (poke m (a - 12) P) (a + n) [0]\<rparr>"
    have v: "udp_view (peek m a n) src_ip dst_ip = P @ peek m a n @ [0]"
      using False by (simp add: udp_view_def P)
    have b4: "buf_add_padding ?B3 1 = ?B4"
      using d by (simp add: buf_add_padding_def)
    have c: "contents ?B4 = P @ peek m a n @ [0]"
      using peek_view_pad [of P 12 a m n] lP d by (simp add: contents_def add.commute)
    have r: "poke (poke (poke m (a - 12) P) (a + n) [0]) (a - 20) ip_hdr = m(a + n := 0)"
      unfolding ip_hdr_def using d lP by (intro poke_pad_restore) auto
    have p: "len ?B3 mod 2 \<noteq> 0" using False by simp presburger
    have "udp_checksum buf src_ip dst_ip = (checksum16 (P @ peek m a n @ [0]),
        buf_remove_padding (buf_remove_header
          (memcpy_buf (buf_add_header ?B4 sizeof_udp_hdr_t) ip_hdr) sizeof_ip_hdr_t) 1)"
      unfolding step Let_def if_P [OF p] b4 c by (rule refl)
    also have "buf_add_header ?B4 sizeof_udp_hdr_t =
        \<lparr>len = n + 21, data = a - 20, store = poke (poke m (a - 12) P) (a + n) [0]\<rparr>"
      using d by (simp add: buf_add_header_def sizeof_udp_hdr_t_def)
    also have "memcpy_buf \<dots> ip_hdr = \<lparr>len = n + 21, data = a - 20, store = m(a + n := 0)\<rparr>"
      by (simp add: memcpy_buf_def r)
    also have "buf_remove_header \<dots> sizeof_ip_hdr_t =
        \<lparr>len = n + 1, data = a, store = m(a + n := 0)\<rparr>"
      using d by (simp add: buf_remove_header_def sizeof_ip_hdr_t_def)
    also have "buf_remove_padding \<dots> 1 = \<lparr>len = n, data = a, store = m(a + n := 0)\<rparr>"
      by (simp add: buf_remove_padding_def)
    finally show ?thesis
      using False by (simp add: cb v fields pad_store_def)
  qed
qed

lemma contents_pad_store [simp]: "contents (buf\<lparr>store := pad_store buf\<rparr>) = contents buf"
  unfolding contents_def by (simp add: pad_store_def) (intro impI peek_cong, simp)

section \<open>What udp\_in does\<close>

lemma zero_checksum_simps [simp]:
  "len (zero_checksum buf) = len buf" "data (zero_checksum buf) = data buf"
  by (simp_all add: zero_checksum_def)

lemma store16_apply:
  "store16 m a x i = (if i = a then ucast x else if i = a + 1 then ucast (drop_bit 8 x) else m i)"
  by (auto simp: store16_def poke_def bytes16_def nth_Cons')

lemma store16_restore: "store16 (store16 m a x) a (load16 m a) = m"
proof
  fix i
  show "store16 (store16 m a x) a (load16 m a) i = m i"
    by (simp add: store16_apply load16_def ucast_word_cat_lo ucast_word_cat_hi)
qed

lemma store16_pad_restore:
  assumes "t \<noteq> a" "t \<noteq> a + 1"
  shows "store16 ((store16 m a x)(t := 0)) a (load16 m a) = m(t := 0)"
proof
  fix i
  show "store16 ((store16 m a x)(t := 0)) a (load16 m a) i = (m(t := 0)) i"
    using assms by (simp add: store16_apply load16_def ucast_word_cat_lo ucast_word_cat_hi)
qed

lemma pad_store_zero_restore:
  assumes "sizeof_udp_hdr_t \<le> len buf"
  shows "store16 (pad_store (zero_checksum buf)) (data buf + off_checksum16)
           (load16 (store buf) (data buf + off_checksum16)) = pad_store buf"
proof (cases "len buf mod 2 \<noteq> 0")
  case True
  have "data buf + len buf \<noteq> data buf + off_checksum16"
    "data buf + len buf \<noteq> data buf + off_checksum16 + 1"
    using assms by (simp_all add: off_checksum16_def sizeof_udp_hdr_t_def)
  from store16_pad_restore [OF this] show ?thesis
    using True by (simp add: pad_store_def zero_checksum_def)
next
  case False
  then show ?thesis by (simp add: pad_store_def zero_checksum_def store16_restore)
qed

lemma load16_pad_store:
  assumes "k + 1 < len buf"
  shows "load16 (pad_store buf) (data buf + k) = load16 (store buf) (data buf + k)"
  using assms by (simp add: load16_def pad_store_def)

lemma peek_pad_store:
  assumes "a + n \<le> data buf + len buf"
  shows "peek (pad_store buf) a n = peek (store buf) a n"
  using assms by (intro peek_cong) (simp add: pad_store_def)

lemma drop_peek: "k \<le> n \<Longrightarrow> drop k (peek m a n) = peek m (a + k) (n - k)"
  by (rule nth_equalityI) (simp_all add: add.assoc)

lemma udp_in_eq:
  assumes "sizeof_ip_hdr_t \<le> data buf" "sizeof_udp_hdr_t \<le> len buf"
  shows "udp_in udp_table net_if_ip buf src_ip =
    (if \<not> checksum_ok buf src_ip net_if_ip
     then ((zero_checksum buf)\<lparr>store := pad_store (zero_checksum buf)\<rparr>, [])
     else case map_get udp_table (swap16 (load16 (store buf) (data buf + off_dst_port16))) of
       None \<Rightarrow>
         (buf\<lparr>store := pad_store buf, len := len buf + sizeof_ip_hdr_t,
              data := data buf - sizeof_ip_hdr_t\<rparr>,
          [Icmp_unreachable
             (peek (store buf) (data buf - sizeof_ip_hdr_t) (len buf + sizeof_ip_hdr_t))
             src_ip ICMP_CODE_PORT_UNREACH])
     | Some handler \<Rightarrow>
         (buf\<lparr>store := pad_store buf, len := len buf - sizeof_udp_hdr_t,
              data := data buf + sizeof_udp_hdr_t\<rparr>,
          [Handler handler (drop sizeof_udp_hdr_t (contents buf)) (len buf - sizeof_udp_hdr_t)
             src_ip (load16 (store buf) (data buf + off_src_port16))]))"
proof -
  let ?z = "zero_checksum buf"
  have z: "buf\<lparr>store := store16 (store buf) (data buf + off_checksum16) 0\<rparr> = ?z"
    by (simp add: zero_checksum_def)
  have cs: "udp_checksum ?z src_ip net_if_ip =
      (checksum16 (udp_view (contents ?z) src_ip net_if_ip), ?z\<lparr>store := pad_store ?z\<rparr>)"
    using assms(1) by (intro udp_checksum_eq) simp
  have ok: "checksum_ok buf src_ip net_if_ip \<longleftrightarrow>
      load16 (store buf) (data buf + off_checksum16) =
        checksum16 (udp_view (contents ?z) src_ip net_if_ip)"
    by (simp add: checksum_ok_def cs)
  have l: "\<not> len buf < sizeof_udp_hdr_t" using assms(2) by simp
  show ?thesis
  proof (cases "checksum_ok buf src_ip net_if_ip")
    case False
    then show ?thesis
      unfolding udp_in_def Let_def z cs using l by (simp add: ok)
  next
    case True
    let ?B = "buf\<lparr>store := pad_store buf\<rparr>"
    have c: "load16 (store buf) (data buf + off_checksum16) =
        checksum16 (udp_view (contents ?z) src_ip net_if_ip)"
      using True by (simp add: ok)
    have b3: "(?z\<lparr>store := pad_store ?z\<rparr>)\<lparr>store :=
        store16 (store (?z\<lparr>store := pad_store ?z\<rparr>)) (data buf + off_checksum16)
          (load16 (store buf) (data buf + off_checksum16))\<rparr> = ?B"
      using pad_store_zero_restore [OF assms(2)] by (simp add: zero_checksum_def)
    have step: "udp_in udp_table net_if_ip buf src_ip =
        (case map_get udp_table (swap16 (load16 (store ?B) (data buf + off_dst_port16))) of
           None \<Rightarrow>
             let buf4 = buf_add_header ?B sizeof_ip_hdr_t
             in (buf4, [Icmp_unreachable (contents buf4) src_ip ICMP_CODE_PORT_UNREACH])
         | Some handler \<Rightarrow>
             let buf4 = buf_remove_header ?B sizeof_udp_hdr_t
             in (buf4, [Handler handler (contents buf4) (len buf4) src_ip
                          (load16 (store buf4) (data buf + off_src_port16))]))"
      unfolding udp_in_def Let_def z cs if_not_P [OF l] prod.case
      unfolding c [symmetric] b3 by simp
    have dp: "load16 (store ?B) (data buf + off_dst_port16) =
        load16 (store buf) (data buf + off_dst_port16)"
      using assms(2) load16_pad_store [of off_dst_port16 buf]
      by (simp add: off_dst_port16_def sizeof_udp_hdr_t_def)
    have a4: "buf_add_header ?B sizeof_ip_hdr_t =
        buf\<lparr>store := pad_store buf, len := len buf + sizeof_ip_hdr_t,
            data := data buf - sizeof_ip_hdr_t\<rparr>"
      using assms(1) by (simp add: buf_add_header_def)
    have ca: "contents (buf_add_header ?B sizeof_ip_hdr_t) =
        peek (store buf) (data buf - sizeof_ip_hdr_t) (len buf + sizeof_ip_hdr_t)"
      unfolding a4 contents_def using assms(1) peek_pad_store
      by simp
    have r4: "buf_remove_header ?B sizeof_udp_hdr_t =
        buf\<lparr>store := pad_store buf, len := len buf - sizeof_udp_hdr_t,
            data := data buf + sizeof_udp_hdr_t\<rparr>"
      using assms(2) by (simp add: buf_remove_header_def)
    have cr: "contents (buf_remove_header ?B sizeof_udp_hdr_t) =
        drop sizeof_udp_hdr_t (contents buf)"
      unfolding r4 contents_def using assms(2) peek_pad_store
      by (simp add: drop_peek)
    have sp: "load16 (pad_store buf) (data buf + off_src_port16) =
        load16 (store buf) (data buf + off_src_port16)"
      using assms(2) load16_pad_store [of off_src_port16 buf]
      by (simp add: off_src_port16_def sizeof_udp_hdr_t_def)
    show ?thesis
      unfolding step dp Let_def ca cr using True
      by (simp add: r4 a4 sp split: option.split)
  qed
qed

section \<open>What udp\_out builds\<close>

lemma udp_hdr_bytes_eq:
  "udp_hdr_bytes \<lparr>src_port16 = swap16 sp, dst_port16 = swap16 dp, total_len16 = swap16 n,
      hdr_checksum16 = ck\<rparr> = udp_header sp dp n ck"
  by (simp add: udp_hdr_bytes_def udp_header_def bytes16_swap16)

lemma udp_out_eq:
  assumes "sizeof_udp_hdr_t + sizeof_ip_hdr_t \<le> data buf"
  shows "snd (udp_out net_if_ip buf src_port dst_ip dst_port) =
           [Ip_out (udp_datagram net_if_ip dst_ip src_port dst_port (contents buf)) dst_ip
              NET_PROTOCOL_UDP]"
    and "contents (fst (udp_out net_if_ip buf src_port dst_ip dst_port)) =
           udp_datagram net_if_ip dst_ip src_port dst_port (contents buf)"
    and "len (fst (udp_out net_if_ip buf src_port dst_ip dst_port)) = len buf + sizeof_udp_hdr_t"
    and "data (fst (udp_out net_if_ip buf src_port dst_ip dst_port)) =
           data buf - sizeof_udp_hdr_t"
proof -
  obtain n a m where fields: "buf = \<lparr>len = n, data = a, store = m\<rparr>"
    by (cases buf)
  have d: "28 \<le> a" using assms fields by (simp add: sizeof_ip_hdr_t_def sizeof_udp_hdr_t_def)
  define H0 where "H0 = udp_header src_port dst_port (of_nat (n + 8)) 0"
  define ck where "ck = checksum16 (udp_view (H0 @ peek m a n) net_if_ip dst_ip)"
  define H1 where "H1 = udp_header src_port dst_port (of_nat (n + 8)) ck"
  have lH: "length H0 = 8" "length H1 = 8" by (simp_all add: H0_def H1_def)
  let ?B1 = "\<lparr>len = n + 8, data = a - 8, store = m\<rparr>"
  let ?B2 = "\<lparr>len = n + 8, data = a - 8, store = poke m (a - 8) H0\<rparr>"
  have b1: "buf_add_header buf sizeof_udp_hdr_t = ?B1"
    using d by (simp add: fields buf_add_header_def sizeof_udp_hdr_t_def)
  have h0: "udp_hdr_bytes \<lparr>src_port16 = swap16 src_port, dst_port16 = swap16 dst_port,
      total_len16 = swap16 (of_nat (len ?B1)), hdr_checksum16 = 0\<rparr> = H0"
    by (simp add: udp_hdr_bytes_eq H0_def)
  have b2: "memcpy_buf ?B1 H0 = ?B2" by (simp add: memcpy_buf_def)
  have c2: "contents ?B2 = H0 @ peek m a n"
    using peek_view [of H0 8 a m n] lH d by (simp add: contents_def add.commute)
  have cs: "udp_checksum ?B2 net_if_ip dst_ip = (ck, ?B2\<lparr>store := pad_store ?B2\<rparr>)"
    using d by (subst udp_checksum_eq) (simp_all add: sizeof_ip_hdr_t_def c2 ck_def)
  have h1: "udp_hdr_bytes (\<lparr>src_port16 = swap16 src_port, dst_port16 = swap16 dst_port,
      total_len16 = swap16 (of_nat (len ?B1)), hdr_checksum16 = 0\<rparr>\<lparr>hdr_checksum16 := ck\<rparr>) = H1"
    by (simp add: udp_hdr_bytes_eq H1_def)
  let ?B4 = "\<lparr>len = n + 8, data = a - 8, store = poke (pad_store ?B2) (a - 8) H1\<rparr>"
  have b4: "memcpy_buf (?B2\<lparr>store := pad_store ?B2\<rparr>) H1 = ?B4"
    by (simp add: memcpy_buf_def)
  have step: "udp_out net_if_ip buf src_port dst_ip dst_port =
      (?B4, [Ip_out (contents ?B4) dst_ip NET_PROTOCOL_UDP])"
    unfolding udp_out_def Let_def b1 h0 b2 cs prod.case h1 b4 by (rule refl)
  have "peek (pad_store ?B2) a n = peek (store ?B2) a n"
    using d by (intro peek_pad_store) simp
  also have "\<dots> = peek m a n"
    using d lH by (simp add: peek_poke_out)
  finally have pp: "peek (pad_store ?B2) a n = peek m a n" .
  have c4: "contents ?B4 = H1 @ peek m a n"
    using peek_view [of H1 8 a "pad_store ?B2" n] lH d pp by (simp add: contents_def add.commute)
  have dg: "udp_datagram net_if_ip dst_ip src_port dst_port (peek m a n) = H1 @ peek m a n"
    by (simp add: udp_datagram_def Let_def H1_def ck_def H0_def add.commute)
  have cb: "contents buf = peek m a n" by (simp add: fields contents_def)
  show "snd (udp_out net_if_ip buf src_port dst_ip dst_port) =
      [Ip_out (udp_datagram net_if_ip dst_ip src_port dst_port (contents buf)) dst_ip
         NET_PROTOCOL_UDP]"
    unfolding step c4 cb dg by simp
  show "contents (fst (udp_out net_if_ip buf src_port dst_ip dst_port)) =
      udp_datagram net_if_ip dst_ip src_port dst_port (contents buf)"
    unfolding step cb dg fst_conv c4 by (rule refl)
  show "len (fst (udp_out net_if_ip buf src_port dst_ip dst_port)) = len buf + sizeof_udp_hdr_t"
    unfolding step by (simp add: fields sizeof_udp_hdr_t_def)
  show "data (fst (udp_out net_if_ip buf src_port dst_ip dst_port)) =
      data buf - sizeof_udp_hdr_t"
    unfolding step by (simp add: fields sizeof_udp_hdr_t_def)
qed

section \<open>Datagrams as byte lists, and the examples\<close>

lemma swap16_load16: "swap16 (load16 m a) = be_load16 m a"
  unfolding swap16_alt load16_def be_load16_def
  by (rule bit_word_eqI) (auto simp: bit_simps)

lemma load16_contents:
  assumes "k + 1 < len buf"
  shows "load16 (store buf) (data buf + k) = word_cat (contents buf ! (k + 1)) (contents buf ! k)"
  using assms by (simp add: load16_def contents_def add.assoc)

lemma be_load16_contents:
  assumes "k + 1 < len buf"
  shows "be_load16 (store buf) (data buf + k) =
    word_cat (contents buf ! k) (contents buf ! (k + 1))"
  using assms by (simp add: be_load16_def contents_def add.assoc)

lemma contents_zero_checksum:
  assumes "sizeof_udp_hdr_t \<le> len buf"
  shows "contents (zero_checksum buf) = (contents buf)[6 := 0, 7 := 0]"
proof (rule nth_equalityI)
  show "length (contents (zero_checksum buf)) = length ((contents buf)[6 := 0, 7 := 0])"
    by simp
next
  fix i
  assume "i < length (contents (zero_checksum buf))"
  then have i: "i < len buf" by simp
  then show "contents (zero_checksum buf) ! i = (contents buf)[6 := 0, 7 := 0] ! i"
    by (simp add: contents_def zero_checksum_def store16_apply off_checksum16_def
        nth_list_update)
qed

lemma checksum_ok_iff:
  assumes "sizeof_ip_hdr_t \<le> data buf" "sizeof_udp_hdr_t \<le> len buf"
  shows "checksum_ok buf src_ip net_if_ip \<longleftrightarrow>
    word_cat (contents buf ! 7) (contents buf ! 6) =
      checksum16 (udp_view ((contents buf)[6 := 0, 7 := 0]) src_ip net_if_ip)"
proof -
  have "udp_checksum (zero_checksum buf) src_ip net_if_ip =
      (checksum16 (udp_view (contents (zero_checksum buf)) src_ip net_if_ip),
       (zero_checksum buf)\<lparr>store := pad_store (zero_checksum buf)\<rparr>)"
    using assms(1) by (intro udp_checksum_eq) simp
  moreover have "load16 (store buf) (data buf + off_checksum16) =
      word_cat (contents buf ! 7) (contents buf ! 6)"
    using assms(2) load16_contents [of 6 buf]
    by (simp add: off_checksum16_def sizeof_udp_hdr_t_def)
  ultimately show ?thesis
    by (simp add: checksum_ok_def contents_zero_checksum [OF assms(2)])
qed

lemma rx_buf_simps [simp]:
  "len (rx_buf h d) = length d" "data (rx_buf h d) = length h"
  by (simp_all add: rx_buf_def)

lemma contents_rx_buf [simp]: "contents (rx_buf h d) = d"
  by (rule nth_equalityI) (simp_all add: contents_def rx_buf_def nth_append)

lemma headroom_rx_buf: "peek (store (rx_buf h d)) 0 (length h) = h"
  by (rule nth_equalityI) (simp_all add: rx_buf_def nth_append)

lemma length_ip_hdr_AB [simp]: "length ip_hdr_AB = 20"
  by (simp add: ip_hdr_AB_def)

lemma room_rx_buf: "sizeof_ip_hdr_t \<le> data (rx_buf ip_hdr_AB d)"
  by (simp add: sizeof_ip_hdr_t_def)

lemma ck_hi: "checksum16 (udp_view (dgram_hi[6 := 0, 7 := 0]) ip_A ip_B) = 83"
  by (simp add: dgram_hi_def udp_view_def be16_def ip_A_def ip_B_def checksum16_def fold16.simps)

lemma ck_hk: "checksum16 (udp_view (dgram_hk[6 := 0, 7 := 0]) ip_A ip_B) = 65106"
  by (simp add: dgram_hk_def udp_view_def be16_def ip_A_def ip_B_def checksum16_def fold16.simps)

lemma ok_hi: "checksum_ok (rx_buf ip_hdr_AB dgram_hi) ip_A ip_B"
  by (subst checksum_ok_iff) (simp_all add: sizeof_ip_hdr_t_def sizeof_udp_hdr_t_def ck_hi,
      simp_all add: dgram_hi_def)

lemma not_ok_hk: "\<not> checksum_ok (rx_buf ip_hdr_AB dgram_hk) ip_A ip_B"
  by (subst checksum_ok_iff) (simp_all add: sizeof_ip_hdr_t_def sizeof_udp_hdr_t_def ck_hk,
      simp_all add: dgram_hk_def)

lemma contents_buf9: "contents buf9 = [20, 21, 22, 23, 24, 25, 26, 27, 28]"
  by (simp add: buf9_def contents_def peek_def upt_rec)

lemma ck_len99: "checksum16 (udp_view (dgram_len99[6 := 0, 7 := 0]) ip_A ip_B) = 42834"
  by (simp add: dgram_len99_def udp_view_def be16_def ip_A_def ip_B_def checksum16_def
      fold16.simps)

lemma ok_len99: "checksum_ok (rx_buf ip_hdr_AB dgram_len99) ip_A ip_B"
  by (subst checksum_ok_iff) (simp_all add: sizeof_ip_hdr_t_def sizeof_udp_hdr_t_def ck_len99,
      simp_all add: dgram_len99_def word_cat_eq)

lemma table53_53: "map_get table53 53 = Some 7"
  by (simp add: table53_def udp_open_def map_set_def map_get_def)

section \<open>Calls of udp\_in and udp\_send by the bytes of the datagram\<close>

lemma udp_in_calls:
  assumes "sizeof_ip_hdr_t \<le> data buf" "sizeof_udp_hdr_t \<le> len buf"
  shows "snd (udp_in udp_table net_if_ip buf src_ip) =
    (if word_cat (contents buf ! 7) (contents buf ! 6) \<noteq>
          checksum16 (udp_view ((contents buf)[6 := 0, 7 := 0]) src_ip net_if_ip)
     then []
     else case map_get udp_table (word_cat (contents buf ! 2) (contents buf ! 3)) of
       None \<Rightarrow>
         [Icmp_unreachable
            (peek (store buf) (data buf - sizeof_ip_hdr_t) sizeof_ip_hdr_t @ contents buf)
            src_ip ICMP_CODE_PORT_UNREACH]
     | Some handler \<Rightarrow>
         [Handler handler (drop sizeof_udp_hdr_t (contents buf)) (len buf - sizeof_udp_hdr_t)
            src_ip (word_cat (contents buf ! 1) (contents buf ! 0))])"
proof -
  have "peek (store buf) (data buf - sizeof_ip_hdr_t) (sizeof_ip_hdr_t + len buf) =
      peek (store buf) (data buf - sizeof_ip_hdr_t) sizeof_ip_hdr_t @
      peek (store buf) (data buf - sizeof_ip_hdr_t + sizeof_ip_hdr_t) (len buf)"
    by (rule peek_append)
  then have i: "peek (store buf) (data buf - sizeof_ip_hdr_t) (len buf + sizeof_ip_hdr_t) =
      peek (store buf) (data buf - sizeof_ip_hdr_t) sizeof_ip_hdr_t @ contents buf"
    using assms(1) by (simp add: contents_def add.commute)
  have d: "be_load16 (store buf) (data buf + off_dst_port16) =
      word_cat (contents buf ! 2) (contents buf ! 3)"
    using assms(2) be_load16_contents [of 2 buf]
    by (simp add: off_dst_port16_def sizeof_udp_hdr_t_def)
  have s: "load16 (store buf) (data buf + off_src_port16) =
      word_cat (contents buf ! 1) (contents buf ! 0)"
    using assms(2) load16_contents [of 0 buf]
    by (simp add: off_src_port16_def sizeof_udp_hdr_t_def)
  show ?thesis
    unfolding udp_in_eq [OF assms] checksum_ok_iff [OF assms] swap16_load16 d s i
    by (simp split: option.split)
qed

lemma udp_send_eq:
  assumes "sizeof_udp_hdr_t + sizeof_ip_hdr_t \<le> room" "unat n \<le> length bytes"
  shows "contents (fst (udp_send room net_if_ip txbuf bytes n src_port dst_ip dst_port)) =
           udp_datagram net_if_ip dst_ip src_port dst_port (take (unat n) bytes)"
    and "len (fst (udp_send room net_if_ip txbuf bytes n src_port dst_ip dst_port)) =
           unat n + sizeof_udp_hdr_t"
    and "data (fst (udp_send room net_if_ip txbuf bytes n src_port dst_ip dst_port)) =
           room - sizeof_udp_hdr_t"
    and "snd (udp_send room net_if_ip txbuf bytes n src_port dst_ip dst_port) =
           [Ip_out (udp_datagram net_if_ip dst_ip src_port dst_port (take (unat n) bytes))
              dst_ip NET_PROTOCOL_UDP]"
proof -
  let ?t = "memcpy_buf (buf_init room txbuf (unat n)) (take (unat n) bytes)"
  have r: "sizeof_udp_hdr_t + sizeof_ip_hdr_t \<le> data ?t"
    using assms(1) by (simp add: memcpy_buf_def buf_init_def)
  have l: "len ?t = unat n" "data ?t = room"
    by (simp_all add: memcpy_buf_def buf_init_def)
  have "contents ?t = peek (poke (store txbuf) room (take (unat n) bytes)) room
      (length (take (unat n) bytes))"
    using assms(2) by (simp add: contents_def memcpy_buf_def buf_init_def)
  then have c: "contents ?t = take (unat n) bytes"
    by (simp only: peek_poke_same)
  have e: "udp_send room net_if_ip txbuf bytes n src_port dst_ip dst_port =
      udp_out net_if_ip ?t src_port dst_ip dst_port"
    by (simp add: udp_send_def)
  note o = udp_out_eq [OF r, of net_if_ip src_port dst_ip dst_port]
  show "snd (udp_send room net_if_ip txbuf bytes n src_port dst_ip dst_port) =
           [Ip_out (udp_datagram net_if_ip dst_ip src_port dst_port (take (unat n) bytes))
              dst_ip NET_PROTOCOL_UDP]"
    unfolding e o c by (rule refl)
  show "len (fst (udp_send room net_if_ip txbuf bytes n src_port dst_ip dst_port)) =
           unat n + sizeof_udp_hdr_t"
    unfolding e o l by (rule refl)
  show "data (fst (udp_send room net_if_ip txbuf bytes n src_port dst_ip dst_port)) =
           room - sizeof_udp_hdr_t"
    unfolding e o l by (rule refl)
  show "contents (fst (udp_send room net_if_ip txbuf bytes n src_port dst_ip dst_port)) =
           udp_datagram net_if_ip dst_ip src_port dst_port (take (unat n) bytes)"
    unfolding e o c by (rule refl)
qed

lemma udp_datagram_hi: "udp_datagram ip_A ip_B 12345 53 [0x68, 0x69] = dgram_hi"
  by (simp add: udp_datagram_def udp_header_def Let_def udp_view_def be16_def bytes16_def
      ip_A_def ip_B_def checksum16_def fold16.simps dgram_hi_def)

lemma load16_store16: "load16 (store16 m a x) a = x"
  by (simp add: load16_def store16_apply word_cat_bytes16)

lemma word_cat_eq_0_iff: "(word_cat (b :: u8) (a :: u8) :: u16) = 0 \<longleftrightarrow> a = 0 \<and> b = 0"
proof
  assume "(word_cat b a :: u16) = 0"
  then have "bytes16 (word_cat b a) = bytes16 0" by simp
  then show "a = 0 \<and> b = 0" by (simp add: bytes16_word_cat) (simp add: bytes16_def)
next
  assume "a = 0 \<and> b = 0"
  then show "(word_cat b a :: u16) = 0" by (simp add: word_cat_eq)
qed

lemma list_update2_same_iff:
  assumes "i < length xs" "j < length xs" "i \<noteq> j"
  shows "xs[i := x, j := y] = xs \<longleftrightarrow> xs ! i = x \<and> xs ! j = y"
proof
  assume e: "xs[i := x, j := y] = xs"
  have "xs[i := x, j := y] ! i = x" "xs[i := x, j := y] ! j = y"
    using assms by simp_all
  then show "xs ! i = x \<and> xs ! j = y" by (simp add: e)
next
  assume "xs ! i = x \<and> xs ! j = y"
  then show "xs[i := x, j := y] = xs" by auto
qed

lemma ck_nock: "checksum16 (udp_view (dgram_nock[6 := 0, 7 := 0]) ip_A ip_B) = 83"
  by (simp add: dgram_nock_def udp_view_def be16_def ip_A_def ip_B_def checksum16_def
      fold16.simps)

lemma not_ok_nock: "\<not> checksum_ok (rx_buf ip_hdr_AB dgram_nock) ip_A ip_B"
  by (subst checksum_ok_iff) (simp_all add: sizeof_ip_hdr_t_def sizeof_udp_hdr_t_def ck_nock,
      simp_all add: dgram_nock_def word_cat_eq)

lemma tx_buf_simps [simp]:
  "len (tx_buf room payload) = length payload" "data (tx_buf room payload) = room"
  by (simp_all add: tx_buf_def memcpy_buf_def buf_init_def)

lemma contents_tx_buf [simp]: "contents (tx_buf room payload) = payload"
  using peek_poke_same [of "store txbuf0" room payload]
  by (simp add: tx_buf_def memcpy_buf_def buf_init_def contents_def)

lemma udp_out_zeroed:
  assumes "sizeof_udp_hdr_t + sizeof_ip_hdr_t \<le> data buf" and that: "length H = sizeof_udp_hdr_t"
  shows "contents (memcpy_buf (buf_add_header buf sizeof_udp_hdr_t) H) = H @ contents buf"
proof -
  have d: "sizeof_udp_hdr_t \<le> data buf" using assms by simp
  have "contents (memcpy_buf (buf_add_header buf sizeof_udp_hdr_t) H) =
      peek (poke (store buf) (data buf - sizeof_udp_hdr_t) H) (data buf - sizeof_udp_hdr_t)
        (sizeof_udp_hdr_t + len buf)"
    using d by (simp add: memcpy_buf_def buf_add_header_def contents_def add.commute)
  also have "\<dots> = H @ peek (store buf) (data buf) (len buf)"
    using that d by (intro peek_view) simp_all
  finally show ?thesis using that by (simp add: contents_def)
qed

lemma ck_ck0: "checksum16 (udp_view dgram_ck0 ip_A ip_B) = 0"
  by (simp add: dgram_ck0_def udp_view_def be16_def ip_A_def ip_B_def checksum16_def
      fold16.simps)

lemma udp_header_ck0: "udp_header 60326 53 8 0 = dgram_ck0"
  by (simp add: udp_header_def be16_def bytes16_def dgram_ck0_def)

lemma room_tx_buf: "sizeof_udp_hdr_t + sizeof_ip_hdr_t \<le> data (tx_buf 64 p)"
  by (simp add: sizeof_udp_hdr_t_def sizeof_ip_hdr_t_def)

lemma sent_hi: "contents (fst (udp_out ip_A (tx_buf 64 [0x68, 0x69]) 12345 ip_B 53)) = dgram_hi"
  unfolding udp_out_eq [OF room_tx_buf] by (simp add: udp_datagram_hi)

section \<open>A datagram built by the sender verifies, a changed one does not\<close>

lemma word_cat_inject:
  "(word_cat (b :: u8) (a :: u8) :: u16) = word_cat (b' :: u8) (a' :: u8) \<longleftrightarrow> a = a' \<and> b = b'"
proof
  assume "(word_cat b a :: u16) = word_cat b' a'"
  then have "bytes16 (word_cat b a) = bytes16 (word_cat b' a')" by simp
  then show "a = a' \<and> b = b'" by (simp add: bytes16_word_cat)
qed simp

lemma flip_bit_neq:
  fixes x :: u8
  assumes "k < 8"
  shows "flip_bit k x \<noteq> x"
proof
  assume e: "flip_bit k x = x"
  have "bit (flip_bit k x) k \<longleftrightarrow> \<not> bit x k"
    using assms by (simp add: bit_flip_bit_iff)
  then show False by (simp add: e)
qed

lemma udp_view_update:
  assumes "i < length c"
  shows "udp_view (c[i := v]) src_ip dst_ip = (udp_view c src_ip dst_ip)[12 + i := v]"
  using assms by (simp add: udp_view_def list_update_append)

lemma udp_view_nth:
  assumes "i < length c"
  shows "udp_view c src_ip dst_ip ! (12 + i) = c ! i"
    and "12 + i < length (udp_view c src_ip dst_ip)"
  using assms by (simp_all add: udp_view_def nth_append)

lemma changed_datagram_fails:
  assumes l: "8 \<le> length c"
    and ok: "word_cat (c ! 7) (c ! 6) = checksum16 (udp_view (c[6 := 0, 7 := 0]) src_ip dst_ip)"
    and i: "i < length c" and v: "v \<noteq> c ! i"
  shows "word_cat (c[i := v] ! 7) (c[i := v] ! 6) \<noteq>
    checksum16 (udp_view (c[i := v, 6 := 0, 7 := 0]) src_ip dst_ip)"
proof (cases "i = 6 \<or> i = 7")
  case True
  then have z: "c[i := v, 6 := 0, 7 := 0] = c[6 := 0, 7 := 0]"
    by (auto simp: list_update_swap [of 6 7])
  have "word_cat (c[i := v] ! 7) (c[i := v] ! 6) \<noteq> (word_cat (c ! 7) (c ! 6) :: u16)"
    using True l v by (auto simp: word_cat_inject)
  then show ?thesis by (simp add: z ok)
next
  case False
  then have s: "c[i := v, 6 := 0, 7 := 0] = c[6 := 0, 7 := 0, i := v]"
    by (simp add: list_update_swap)
  have n: "c[6 := 0, 7 := 0] ! i = c ! i" using False by simp
  have i': "i < length (c[6 := 0, 7 := 0])" using i by simp
  have "checksum16 ((udp_view (c[6 := 0, 7 := 0]) src_ip dst_ip)[12 + i := v]) \<noteq>
      checksum16 (udp_view (c[6 := 0, 7 := 0]) src_ip dst_ip)"
    using udp_view_nth [OF i', of src_ip dst_ip] v n by (intro checksum16_update_neq) simp_all
  moreover have "word_cat (c[i := v] ! 7) (c[i := v] ! 6) = (word_cat (c ! 7) (c ! 6) :: u16)"
    using False by simp
  ultimately show ?thesis
    unfolding s udp_view_update [OF i'] by (simp add: ok)
qed

lemma udp_datagram_verifies:
  assumes c_def: "c = udp_datagram src_ip dst_ip src_port dst_port payload"
  shows "word_cat (c ! 7) (c ! 6) = checksum16 (udp_view (c[6 := 0, 7 := 0]) src_ip dst_ip)"
    and "length c = 8 + length payload"
proof -
  define n :: u16 where "n = of_nat (8 + length payload)"
  define ck where
    "ck = checksum16 (udp_view (udp_header src_port dst_port n 0 @ payload) src_ip dst_ip)"
  have c: "c = udp_header src_port dst_port n ck @ payload"
    by (simp add: c_def udp_datagram_def Let_def n_def ck_def)
  have z: "c[6 := 0, 7 := 0] = udp_header src_port dst_port n 0 @ payload"
    by (simp add: c udp_header_def be16_def bytes16_def)
  have f: "word_cat (c ! 7) (c ! 6) = ck"
    by (simp add: c udp_header_def be16_def bytes16_def word_cat_bytes16)
  show "word_cat (c ! 7) (c ! 6) = checksum16 (udp_view (c[6 := 0, 7 := 0]) src_ip dst_ip)"
    unfolding z f ck_def by (rule refl)
  show "length c = 8 + length payload" by (simp add: c)
qed

section \<open>The claims\<close>

text \<open>
  Every theorem about \<^verbatim>\<open>udp_checksum\<close>, and about \<^verbatim>\<open>udp_in\<close> past its checksum
  computation, assumes the head-room the code takes for granted: \<^verbatim>\<open>udp_checksum\<close> pushes
  \<^verbatim>\<open>sizeof(ip_hdr_t)\<close> bytes in front of the UDP header, so the buffer must have that many
  bytes before \<open>data\<close> (the network header that was removed from a received packet; for
  \<^verbatim>\<open>udp_out\<close>, which first pushes the UDP header itself, 28 bytes).
\<close>

text \<open>
  Claim C2 (checksum purity). With head-room for the pushed header, \<^verbatim>\<open>udp_checksum\<close>
  returns the buffer with the length, the \<open>data\<close> pointer and the observable bytes it had on
  entry, and every byte of the memory as it was (so the head-room, where the pseudo-header
  was written over the saved bytes, is restored) with one exception: the byte just after
  the tail, which is outside the observable bytes and is left zero when the length is odd.
\<close>

theorem udp_checksum_pure:
  assumes "sizeof_ip_hdr_t \<le> data buf"
  shows "len (snd (udp_checksum buf src_ip dst_ip)) = len buf \<and>
         data (snd (udp_checksum buf src_ip dst_ip)) = data buf \<and>
         contents (snd (udp_checksum buf src_ip dst_ip)) = contents buf \<and>
         (\<forall>a. a \<noteq> data buf + len buf \<longrightarrow>
            store (snd (udp_checksum buf src_ip dst_ip)) a = store buf a)"
  by (simp add: udp_checksum_eq [OF assms]) (simp add: pad_store_def)

theorem udp_checksum_pure_witness:
  "sizeof_ip_hdr_t \<le> data buf9 \<and>
   len (snd (udp_checksum buf9 ip_A ip_B)) = 9 \<and>
   data (snd (udp_checksum buf9 ip_A ip_B)) = 20 \<and>
   contents (snd (udp_checksum buf9 ip_A ip_B)) = [20, 21, 22, 23, 24, 25, 26, 27, 28] \<and>
   store (snd (udp_checksum buf9 ip_A ip_B)) 8 = 8"
proof -
  have h: "sizeof_ip_hdr_t \<le> data buf9" by (simp add: buf9_def sizeof_ip_hdr_t_def)
  from udp_checksum_pure [OF h, of ip_A ip_B] show ?thesis
    using h by (simp add: contents_buf9) (simp add: buf9_def)
qed

text \<open>
  Claim C4 (silent drop). When the buffer is shorter than the UDP header, or the checksum
  \<^verbatim>\<open>udp_in\<close> recomputes differs from the one in the header, \<^verbatim>\<open>udp_in\<close> makes no call at all:
  no handler, no \<^verbatim>\<open>icmp_unreachable\<close>.
\<close>

theorem udp_in_silent_drop:
  assumes "len buf < sizeof_udp_hdr_t \<or> \<not> checksum_ok buf src_ip net_if_ip"
  shows "snd (udp_in udp_table net_if_ip buf src_ip) = []"
proof (cases "len buf < sizeof_udp_hdr_t")
  case True
  then show ?thesis by (simp add: udp_in_def)
next
  case False
  with assms have "\<not> checksum_ok buf src_ip net_if_ip" by simp
  then have "load16 (store buf) (data buf + off_checksum16) \<noteq>
      fst (udp_checksum (buf\<lparr>store := store16 (store buf) (data buf + off_checksum16) 0\<rparr>)
        src_ip net_if_ip)"
    by (simp add: checksum_ok_def zero_checksum_def)
  then show ?thesis
    using False by (simp add: udp_in_def Let_def split_def)
qed

theorem udp_in_silent_drop_witness:
  "len (rx_buf ip_hdr_AB [1, 2, 3]) < sizeof_udp_hdr_t \<and>
   snd (udp_in table53 ip_B (rx_buf ip_hdr_AB [1, 2, 3]) ip_A) = [] \<and>
   \<not> checksum_ok (rx_buf ip_hdr_AB dgram_hk) ip_A ip_B \<and>
   snd (udp_in table53 ip_B (rx_buf ip_hdr_AB dgram_hk) ip_A) = []"
proof -
  have s: "len (rx_buf ip_hdr_AB [1, 2, 3]) < sizeof_udp_hdr_t"
    by (simp add: sizeof_udp_hdr_t_def)
  show ?thesis
    using s not_ok_hk
      udp_in_silent_drop [of "rx_buf ip_hdr_AB [1, 2, 3]" ip_A ip_B table53]
      udp_in_silent_drop [of "rx_buf ip_hdr_AB dgram_hk" ip_A ip_B table53]
    by simp
qed

text \<open>
  Claim C5 (unreachable port). For a datagram of at least 8 bytes that passes the checksum
  check and whose destination port (the field read in network order) has no entry in the
  table, \<^verbatim>\<open>udp_in\<close> pushes \<^verbatim>\<open>sizeof(ip_hdr_t)\<close> bytes back in front of the buffer and makes
  exactly one call: \<^verbatim>\<open>icmp_unreachable\<close> with the buffer, now the network header that was in
  the head-room followed by the unchanged UDP bytes, the sender's address and the code "port
  unreachable". No handler is called.
\<close>

theorem udp_in_port_unreachable:
  assumes "sizeof_ip_hdr_t \<le> data buf" "sizeof_udp_hdr_t \<le> len buf"
    and "checksum_ok buf src_ip net_if_ip"
    and "map_get udp_table (be_load16 (store buf) (data buf + off_dst_port16)) = None"
  shows "snd (udp_in udp_table net_if_ip buf src_ip) =
           [Icmp_unreachable
              (peek (store buf) (data buf - sizeof_ip_hdr_t) sizeof_ip_hdr_t @ contents buf)
              src_ip ICMP_CODE_PORT_UNREACH] \<and>
         len (fst (udp_in udp_table net_if_ip buf src_ip)) = len buf + sizeof_ip_hdr_t \<and>
         data (fst (udp_in udp_table net_if_ip buf src_ip)) = data buf - sizeof_ip_hdr_t"
proof -
  have "peek (store buf) (data buf - sizeof_ip_hdr_t) (sizeof_ip_hdr_t + len buf) =
      peek (store buf) (data buf - sizeof_ip_hdr_t) sizeof_ip_hdr_t @
      peek (store buf) (data buf - sizeof_ip_hdr_t + sizeof_ip_hdr_t) (len buf)"
    by (rule peek_append)
  then have "peek (store buf) (data buf - sizeof_ip_hdr_t) (len buf + sizeof_ip_hdr_t) =
      peek (store buf) (data buf - sizeof_ip_hdr_t) sizeof_ip_hdr_t @ contents buf"
    using assms(1) by (simp add: contents_def add.commute)
  then show ?thesis
    using assms(3,4) by (simp add: udp_in_eq [OF assms(1,2)] swap16_load16)
qed

theorem udp_in_port_unreachable_witness:
  "sizeof_ip_hdr_t \<le> data (rx_buf ip_hdr_AB dgram_hi) \<and>
   sizeof_udp_hdr_t \<le> len (rx_buf ip_hdr_AB dgram_hi) \<and>
   checksum_ok (rx_buf ip_hdr_AB dgram_hi) ip_A ip_B \<and>
   map_get Map.empty
     (be_load16 (store (rx_buf ip_hdr_AB dgram_hi))
        (data (rx_buf ip_hdr_AB dgram_hi) + off_dst_port16)) = None \<and>
   snd (udp_in Map.empty ip_B (rx_buf ip_hdr_AB dgram_hi) ip_A) =
     [Icmp_unreachable (ip_hdr_AB @ dgram_hi) ip_A 3]"
proof -
  have l: "sizeof_udp_hdr_t \<le> len (rx_buf ip_hdr_AB dgram_hi)"
    by (simp add: sizeof_udp_hdr_t_def dgram_hi_def)
  have n: "map_get Map.empty
     (be_load16 (store (rx_buf ip_hdr_AB dgram_hi))
        (data (rx_buf ip_hdr_AB dgram_hi) + off_dst_port16)) = None"
    by (simp add: map_get_def)
  have h: "peek (store (rx_buf ip_hdr_AB dgram_hi)) 0 20 = ip_hdr_AB"
    using headroom_rx_buf [of ip_hdr_AB dgram_hi] by simp
  from udp_in_port_unreachable [OF room_rx_buf l ok_hi n] show ?thesis
    using room_rx_buf l ok_hi n by (simp add: h ICMP_CODE_PORT_UNREACH_def sizeof_ip_hdr_t_def)
qed

text \<open>
  Claim C10 (the length field is ignored on receive). For a buffer of at least 8 bytes that
  passes the checksum check and whose destination port has a handler, \<^verbatim>\<open>udp_in\<close> makes
  exactly one call, to that handler, with the bytes after the first 8, their number (the
  length of the buffer minus 8), the sender's address and the source port field as the host
  reads it. Nothing is assumed about the length field of the header: the witness is a
  datagram of 10 bytes whose length field says 99.
\<close>

theorem udp_in_ignores_length_field:
  assumes "sizeof_ip_hdr_t \<le> data buf" "sizeof_udp_hdr_t \<le> len buf"
    and "checksum_ok buf src_ip net_if_ip"
    and "map_get udp_table (be_load16 (store buf) (data buf + off_dst_port16)) = Some handler"
  shows "snd (udp_in udp_table net_if_ip buf src_ip) =
           [Handler handler (drop sizeof_udp_hdr_t (contents buf)) (len buf - sizeof_udp_hdr_t)
              src_ip (load16 (store buf) (data buf + off_src_port16))]"
  using assms(3,4) by (simp add: udp_in_eq [OF assms(1,2)] swap16_load16)

theorem udp_in_ignores_length_field_witness:
  "sizeof_ip_hdr_t \<le> data (rx_buf ip_hdr_AB dgram_len99) \<and>
   sizeof_udp_hdr_t \<le> len (rx_buf ip_hdr_AB dgram_len99) \<and>
   checksum_ok (rx_buf ip_hdr_AB dgram_len99) ip_A ip_B \<and>
   map_get table53
     (be_load16 (store (rx_buf ip_hdr_AB dgram_len99))
        (data (rx_buf ip_hdr_AB dgram_len99) + off_dst_port16)) = Some 7 \<and>
   be_load16 (store (rx_buf ip_hdr_AB dgram_len99))
     (data (rx_buf ip_hdr_AB dgram_len99) + off_total_len16) = 99 \<and>
   len (rx_buf ip_hdr_AB dgram_len99) = 10 \<and>
   snd (udp_in table53 ip_B (rx_buf ip_hdr_AB dgram_len99) ip_A) =
     [Handler 7 [0x68, 0x69] 2 ip_A 0x3930]"
proof -
  let ?b = "rx_buf ip_hdr_AB dgram_len99"
  have l: "sizeof_udp_hdr_t \<le> len ?b"
    by (simp add: sizeof_udp_hdr_t_def dgram_len99_def)
  have p: "be_load16 (store ?b) (data ?b + off_dst_port16) = 53"
    using be_load16_contents [of 2 ?b]
    by (simp add: off_dst_port16_def) (simp add: dgram_len99_def)
  have t: "be_load16 (store ?b) (data ?b + off_total_len16) = 99"
    using be_load16_contents [of 4 ?b]
    by (simp add: off_total_len16_def) (simp add: dgram_len99_def)
  have s: "load16 (store ?b) (data ?b + off_src_port16) = 0x3930"
    using load16_contents [of 0 ?b]
    by (simp add: off_src_port16_def) (simp add: dgram_len99_def word_cat_eq)
  have n: "map_get table53 (be_load16 (store ?b) (data ?b + off_dst_port16)) = Some 7"
    by (simp only: p table53_53)
  have e: "snd (udp_in table53 ip_B ?b ip_A) = [Handler 7 [0x68, 0x69] 2 ip_A 0x3930]"
    unfolding udp_in_ignores_length_field [OF room_rx_buf l ok_len99 n] s
    by (simp add: dgram_len99_def sizeof_udp_hdr_t_def)
  have l10: "len ?b = 10" by (simp add: dgram_len99_def)
  show ?thesis by (intro conjI room_rx_buf l ok_len99 n t l10 e)
qed

text \<open>
  Claim C1 (end-to-end delivery). Host B has opened port 53 with a handler; host A sends the
  payload "hi" from port 12345 to B, port 53; B's \<^verbatim>\<open>udp_in\<close> gets the datagram. The handler
  is called exactly once, with the payload "hi", the length 2 and the address of A, as the
  claim says. The port it is given is not 12345: \<^verbatim>\<open>udp_in\<close> passes the source port field
  as it stands in the header, in network byte order, where it converts the destination port
  with \<^verbatim>\<open>swap16\<close> and \<^verbatim>\<open>udp_out\<close> converts both ports when it writes them. The handler
  receives \<^verbatim>\<open>swap16(12345)\<close>, which is 14640.
\<close>

theorem udp_end_to_end_src_port:
  "snd (udp_in table53 ip_B
         (fst (udp_send 64 ip_A txbuf0 [0x68, 0x69] 2 12345 ip_B 53)) ip_A) =
     [Handler 7 [0x68, 0x69] 2 ip_A 0x3930] \<and>
   (0x3930 :: u16) \<noteq> 12345 \<and> (0x3930 :: u16) = swap16 12345"
proof -
  let ?s = "fst (udp_send 64 ip_A txbuf0 [0x68, 0x69] 2 12345 ip_B 53)"
  have r: "sizeof_udp_hdr_t + sizeof_ip_hdr_t \<le> 64" "unat (2 :: u16) \<le> length [0x68, 0x69 :: u8]"
    by (simp_all add: sizeof_udp_hdr_t_def sizeof_ip_hdr_t_def)
  note e = udp_send_eq [OF r, of ip_A txbuf0 12345 ip_B 53]
  have c: "contents ?s = dgram_hi"
    unfolding e by (simp add: udp_datagram_hi)
  have h: "sizeof_ip_hdr_t \<le> data ?s" "sizeof_udp_hdr_t \<le> len ?s"
    unfolding e by (simp_all add: sizeof_udp_hdr_t_def sizeof_ip_hdr_t_def)
  have "snd (udp_in table53 ip_B ?s ip_A) = [Handler 7 [0x68, 0x69] 2 ip_A 0x3930]"
    unfolding udp_in_calls [OF h] c e ck_hi
    by (simp add: dgram_hi_def word_cat_eq table53_53 sizeof_udp_hdr_t_def)
  moreover have "(0x3930 :: u16) = swap16 12345"
    by (simp add: swap16_def)
  ultimately show ?thesis by simp
qed

text \<open>
  Claim C3 (checksum round trip). A datagram built by \<^verbatim>\<open>udp_out\<close> on a host with address
  \<open>ip_a\<close> for the destination \<open>ip_b\<close>, received in any buffer (with the head-room of a
  removed network header) by \<^verbatim>\<open>udp_in\<close> on the host with address \<open>ip_b\<close> from the sender
  \<open>ip_a\<close>, passes the checksum check and leads to a call (a handler or
  \<^verbatim>\<open>icmp_unreachable\<close>). The same bytes with any one bit of any one byte flipped fail the
  check and are dropped without a call. This holds for every payload, both addresses, both
  ports and every table.
\<close>

theorem udp_checksum_round_trip:
  assumes "sizeof_udp_hdr_t + sizeof_ip_hdr_t \<le> data buf" and "sizeof_ip_hdr_t \<le> data rbuf"
  shows "let sent = contents (fst (udp_out ip_a buf src_port ip_b dst_port)) in
           (contents rbuf = sent \<longrightarrow>
              checksum_ok rbuf ip_a ip_b \<and> snd (udp_in udp_table ip_b rbuf ip_a) \<noteq> []) \<and>
           (\<forall>i k. i < length sent \<and> k < 8 \<and> contents rbuf = sent[i := flip_bit k (sent ! i)] \<longrightarrow>
              \<not> checksum_ok rbuf ip_a ip_b \<and> snd (udp_in udp_table ip_b rbuf ip_a) = [])"
proof -
  define sent where "sent = udp_datagram ip_a ip_b src_port dst_port (contents buf)"
  have s: "contents (fst (udp_out ip_a buf src_port ip_b dst_port)) = sent"
    unfolding sent_def by (rule udp_out_eq [OF assms(1)])
  have v: "word_cat (sent ! 7) (sent ! 6) =
      checksum16 (udp_view (sent[6 := 0, 7 := 0]) ip_a ip_b)"
    and l: "length sent = 8 + len buf"
    using udp_datagram_verifies [OF sent_def] by simp_all
  have a: "checksum_ok rbuf ip_a ip_b \<and> snd (udp_in udp_table ip_b rbuf ip_a) \<noteq> []"
    if c: "contents rbuf = sent"
  proof -
    have r: "sizeof_udp_hdr_t \<le> len rbuf"
      using l c [symmetric] length_contents [of rbuf] by (simp add: sizeof_udp_hdr_t_def)
    have "checksum_ok rbuf ip_a ip_b"
      unfolding checksum_ok_iff [OF assms(2) r] c by (rule v)
    then show ?thesis
      by (simp add: udp_in_eq [OF assms(2) r] split: option.split)
  qed
  have b: "\<not> checksum_ok rbuf ip_a ip_b \<and> snd (udp_in udp_table ip_b rbuf ip_a) = []"
    if i: "i < length sent" and k: "k < 8"
      and c: "contents rbuf = sent[i := flip_bit k (sent ! i)]" for i k
  proof -
    have r: "sizeof_udp_hdr_t \<le> len rbuf"
      using l c length_contents [of rbuf] by (simp add: sizeof_udp_hdr_t_def)
    have "8 \<le> length sent" using l by simp
    from changed_datagram_fails [OF this v i flip_bit_neq [OF k, of "sent ! i"]]
    have "\<not> checksum_ok rbuf ip_a ip_b"
      unfolding checksum_ok_iff [OF assms(2) r] c by simp
    then show ?thesis
      by (simp add: udp_in_eq [OF assms(2) r])
  qed
  show ?thesis
    unfolding Let_def s using a b by blast
qed

theorem udp_checksum_round_trip_witness:
  "sizeof_udp_hdr_t + sizeof_ip_hdr_t \<le> data (tx_buf 64 [0x68, 0x69]) \<and>
   sizeof_ip_hdr_t \<le> data (rx_buf ip_hdr_AB dgram_hi) \<and>
   contents (rx_buf ip_hdr_AB dgram_hi) =
     contents (fst (udp_out ip_A (tx_buf 64 [0x68, 0x69]) 12345 ip_B 53)) \<and>
   checksum_ok (rx_buf ip_hdr_AB dgram_hi) ip_A ip_B \<and>
   snd (udp_in table53 ip_B (rx_buf ip_hdr_AB dgram_hi) ip_A) \<noteq> [] \<and>
   contents (rx_buf ip_hdr_AB dgram_hk) =
     (contents (fst (udp_out ip_A (tx_buf 64 [0x68, 0x69]) 12345 ip_B 53)))
       [9 := flip_bit 1 (contents (fst (udp_out ip_A (tx_buf 64 [0x68, 0x69]) 12345 ip_B 53)) ! 9)] \<and>
   \<not> checksum_ok (rx_buf ip_hdr_AB dgram_hk) ip_A ip_B \<and>
   snd (udp_in table53 ip_B (rx_buf ip_hdr_AB dgram_hk) ip_A) = []"
proof -
  note t = udp_checksum_round_trip [OF room_tx_buf [of "[0x68, 0x69]"] room_rx_buf,
      where ip_a = ip_A and ip_b = ip_B and src_port = 12345 and dst_port = 53
      and udp_table = table53, unfolded Let_def sent_hi]
  have "flip_bit (Suc 0) (0x69 :: u8) = 0x6B"
    by (simp add: flip_bit_eq_xor)
  then have f: "dgram_hi[9 := flip_bit 1 (dgram_hi ! 9)] = dgram_hk"
    by (simp add: dgram_hi_def dgram_hk_def)
  have a: "checksum_ok (rx_buf ip_hdr_AB dgram_hi) ip_A ip_B \<and>
      snd (udp_in table53 ip_B (rx_buf ip_hdr_AB dgram_hi) ip_A) \<noteq> []"
    using t [of dgram_hi] by simp
  have "9 < length dgram_hi" by (simp add: dgram_hi_def)
  moreover have "contents (rx_buf ip_hdr_AB dgram_hk) = dgram_hi[9 := flip_bit 1 (dgram_hi ! 9)]"
    by (simp only: contents_rx_buf f)
  ultimately have "9 < length dgram_hi \<and> (1 :: nat) < 8 \<and>
      contents (rx_buf ip_hdr_AB dgram_hk) = dgram_hi[9 := flip_bit 1 (dgram_hi ! 9)]"
    by simp
  then have b: "\<not> checksum_ok (rx_buf ip_hdr_AB dgram_hk) ip_A ip_B \<and>
      snd (udp_in table53 ip_B (rx_buf ip_hdr_AB dgram_hk) ip_A) = []"
    using t [of dgram_hk] by blast
  have c1: "contents (rx_buf ip_hdr_AB dgram_hi) =
      contents (fst (udp_out ip_A (tx_buf 64 [0x68, 0x69]) 12345 ip_B 53))"
    by (simp only: contents_rx_buf sent_hi)
  have c2: "contents (rx_buf ip_hdr_AB dgram_hk) =
     (contents (fst (udp_out ip_A (tx_buf 64 [0x68, 0x69]) 12345 ip_B 53)))
       [9 := flip_bit 1 (contents (fst (udp_out ip_A (tx_buf 64 [0x68, 0x69]) 12345 ip_B 53)) ! 9)]"
    by (simp only: contents_rx_buf sent_hi f)
  show ?thesis
    by (intro conjI room_tx_buf room_rx_buf c1 c2 a [THEN conjunct1] a [THEN conjunct2]
        b [THEN conjunct1] b [THEN conjunct2])
qed

text \<open>
  Claim C6 (registry). After a successful \<^verbatim>\<open>udp_open\<close> of a port the lookup of that port
  (the \<^verbatim>\<open>map_get\<close> of \<^verbatim>\<open>udp_in\<close>) gives the handler; after \<^verbatim>\<open>udp_close\<close> it gives none;
  \<^verbatim>\<open>udp_close\<close> of a port without entry leaves the table as it is (and returns nothing
  that could signal a failure); a second successful \<^verbatim>\<open>udp_open\<close> of the same port replaces
  the handler.
\<close>

theorem udp_registry:
  "(fst (udp_open grows udp_table port handler) = 0 \<longrightarrow>
      map_get (snd (udp_open grows udp_table port handler)) port = Some handler) \<and>
   map_get (udp_close udp_table port) port = None \<and>
   (map_get udp_table port = None \<longrightarrow> udp_close udp_table port = udp_table) \<and>
   (fst (udp_open grows udp_table port handler) = 0 \<and>
    fst (udp_open grows' (snd (udp_open grows udp_table port handler)) port handler') = 0 \<longrightarrow>
      map_get (snd (udp_open grows' (snd (udp_open grows udp_table port handler)) port handler'))
        port = Some handler')"
  by (auto simp: udp_open_def udp_close_def map_set_def map_get_def map_delete_def fun_eq_iff)

theorem udp_registry_witness:
  "fst (udp_open True Map.empty 53 7) = 0 \<and>
   map_get (snd (udp_open True Map.empty 53 7)) 53 = Some 7 \<and>
   map_get (udp_close table53 53) 53 = None \<and>
   map_get Map.empty 53 = None \<and> udp_close Map.empty 53 = Map.empty \<and>
   fst (udp_open True table53 53 8) = 0 \<and>
   map_get (snd (udp_open True table53 53 8)) 53 = Some 8"
proof -
  have o: "fst (udp_open True Map.empty 53 7) = 0" "fst (udp_open True table53 53 8) = 0"
    by (simp_all add: udp_open_def map_set_def)
  have n: "map_get Map.empty 53 = None" by (simp add: map_get_def)
  show ?thesis
    using o n udp_registry [of True Map.empty 53 7 True 8]
      udp_registry [of True table53 53 7 True 8]
    by (simp add: table53_def)
qed

text \<open>
  Claim C7 (outbound construction), amended. With head-room for the UDP header and the
  pushed network header, \<^verbatim>\<open>udp_out\<close> puts 8 bytes in front of the payload: source port,
  destination port and total length in network order, then the checksum. The checksum is
  what \<^verbatim>\<open>udp_checksum\<close> returns for the buffer holding the same header with a zero
  checksum field, the local address as source and the given destination. The one call made
  is \<^verbatim>\<open>ip_out\<close> with these bytes, the destination and the UDP protocol number. The length
  field holds 8 plus the length of the payload in 16 bits, that is modulo 65536; it is that
  number itself when the number is below 65536.
\<close>

theorem udp_out_datagram:
  assumes "sizeof_udp_hdr_t + sizeof_ip_hdr_t \<le> data buf"
  shows "let n = (of_nat (8 + len buf) :: u16);
             zeroed = memcpy_buf (buf_add_header buf sizeof_udp_hdr_t)
                        (udp_header src_port dst_port n 0);
             checksum = fst (udp_checksum zeroed net_if_ip dst_ip);
             out = udp_out net_if_ip buf src_port dst_ip dst_port
         in contents zeroed = udp_header src_port dst_port n 0 @ contents buf \<and>
            contents (fst out) = udp_header src_port dst_port n checksum @ contents buf \<and>
            len (fst out) = 8 + len buf \<and>
            snd out = [Ip_out (contents (fst out)) dst_ip NET_PROTOCOL_UDP] \<and>
            (8 + len buf < 65536 \<longrightarrow> unat n = 8 + len buf)"
proof -
  define n where "n = (of_nat (8 + len buf) :: u16)"
  define zeroed where
    "zeroed = memcpy_buf (buf_add_header buf sizeof_udp_hdr_t) (udp_header src_port dst_port n 0)"
  have z: "contents zeroed = udp_header src_port dst_port n 0 @ contents buf"
    unfolding zeroed_def by (intro udp_out_zeroed assms) (simp add: sizeof_udp_hdr_t_def)
  have "sizeof_ip_hdr_t \<le> data zeroed"
    using assms by (simp add: zeroed_def memcpy_buf_def buf_add_header_def)
  then have c: "fst (udp_checksum zeroed net_if_ip dst_ip) =
      checksum16 (udp_view (udp_header src_port dst_port n 0 @ contents buf) net_if_ip dst_ip)"
    by (simp add: udp_checksum_eq z)
  have "unat n = (8 + len buf) mod 2 ^ LENGTH(16)"
    unfolding n_def by (rule unat_of_nat)
  then have u: "8 + len buf < 65536 \<longrightarrow> unat n = 8 + len buf"
    by simp
  show ?thesis
    unfolding Let_def n_def [symmetric] zeroed_def [symmetric] c udp_out_eq [OF assms]
    using z u by (simp add: udp_datagram_def Let_def n_def sizeof_udp_hdr_t_def)
qed

theorem udp_out_datagram_witness:
  "sizeof_udp_hdr_t + sizeof_ip_hdr_t \<le> data (tx_buf 64 [0x68, 0x69]) \<and>
   contents (fst (udp_out ip_A (tx_buf 64 [0x68, 0x69]) 12345 ip_B 53)) =
     [0x30, 0x39, 0, 53, 0, 10, 83, 0, 0x68, 0x69] \<and>
   snd (udp_out ip_A (tx_buf 64 [0x68, 0x69]) 12345 ip_B 53) =
     [Ip_out [0x30, 0x39, 0, 53, 0, 10, 83, 0, 0x68, 0x69] ip_B 17]"
proof -
  let ?b = "tx_buf 64 [0x68, 0x69]"
  let ?z = "memcpy_buf (buf_add_header ?b sizeof_udp_hdr_t) (udp_header 12345 53 10 0)"
  note t = udp_out_datagram [OF room_tx_buf, of "[0x68, 0x69]" 12345 53 ip_A ip_B,
      unfolded Let_def]
  have z: "contents ?z = [0x30, 0x39, 0, 53, 0, 10, 0, 0, 0x68, 0x69]"
    using t by (simp add: udp_header_def be16_def bytes16_def)
  have "sizeof_ip_hdr_t \<le> data ?z"
    by (simp add: memcpy_buf_def buf_add_header_def sizeof_udp_hdr_t_def sizeof_ip_hdr_t_def)
  then have c: "fst (udp_checksum ?z ip_A ip_B) = 83"
    using ck_hi by (simp add: udp_checksum_eq z dgram_hi_def)
  show ?thesis
    using t room_tx_buf [of "[0x68, 0x69]"]
    by (simp add: c) (simp add: udp_header_def be16_def bytes16_def NET_PROTOCOL_UDP_def)
qed

text \<open>
  The claim as it was stated fails for a payload of 65528 bytes: 8 plus the payload length
  is 65536 and the length field of the datagram is 0.
\<close>

theorem udp_out_length_field_wraps:
  "sizeof_udp_hdr_t + sizeof_ip_hdr_t \<le> data buf_big \<and>
   8 + len buf_big = 65536 \<and>
   be_load16 (store (fst (udp_out ip_A buf_big 12345 ip_B 53)))
     (data (fst (udp_out ip_A buf_big 12345 ip_B 53)) + off_total_len16) = 0"
proof -
  let ?s = "fst (udp_out ip_A buf_big 12345 ip_B 53)"
  have r: "sizeof_udp_hdr_t + sizeof_ip_hdr_t \<le> data buf_big"
    by (simp add: buf_big_def sizeof_udp_hdr_t_def sizeof_ip_hdr_t_def)
  have l: "len buf_big = 65528" by (simp add: buf_big_def)
  note e = udp_out_eq [OF r, of ip_A 12345 ip_B 53]
  have "4 + 1 < len ?s" unfolding e by (simp add: l)
  then have "be_load16 (store ?s) (data ?s + 4) = word_cat (contents ?s ! 4) (contents ?s ! (4 + 1))"
    by (rule be_load16_contents)
  also have "\<dots> = 0"
    unfolding e by (simp add: udp_datagram_def Let_def udp_header_def be16_def l word_cat_eq)
  finally show ?thesis
    using r l by (simp add: off_total_len16_def)
qed

text \<open>
  Claim C8 (no zero-checksum sentinel). With head-room, what \<^verbatim>\<open>udp_checksum\<close> returns is
  the value of \<^verbatim>\<open>checksum16\<close> over the pseudo-header, the datagram and the padding,
  unchanged, and \<^verbatim>\<open>udp_out\<close> writes the two bytes of that value into bytes 6 and 7 of the
  datagram. The witness is a datagram for which the value is 0: it is returned as 0 and
  sent as two zero bytes.
\<close>

theorem udp_checksum_raw_result:
  assumes "sizeof_ip_hdr_t \<le> data buf"
  shows "fst (udp_checksum buf src_ip dst_ip) =
           checksum16 (udp_view (contents buf) src_ip dst_ip) \<and>
         (sizeof_udp_hdr_t + sizeof_ip_hdr_t \<le> data buf \<longrightarrow>
            take 2 (drop 6 (contents (fst (udp_out src_ip buf src_port dst_ip dst_port)))) =
              bytes16 (checksum16 (udp_view
                (udp_header src_port dst_port (of_nat (8 + len buf)) 0 @ contents buf)
                src_ip dst_ip)))"
proof (intro conjI impI)
  show "fst (udp_checksum buf src_ip dst_ip) = checksum16 (udp_view (contents buf) src_ip dst_ip)"
    by (simp add: udp_checksum_eq [OF assms])
next
  assume r: "sizeof_udp_hdr_t + sizeof_ip_hdr_t \<le> data buf"
  show "take 2 (drop 6 (contents (fst (udp_out src_ip buf src_port dst_ip dst_port)))) =
      bytes16 (checksum16 (udp_view
        (udp_header src_port dst_port (of_nat (8 + len buf)) 0 @ contents buf) src_ip dst_ip))"
    unfolding udp_out_eq [OF r]
    by (simp add: udp_datagram_def Let_def udp_header_def)
qed

theorem udp_checksum_raw_result_witness:
  "sizeof_ip_hdr_t \<le> data (rx_buf ip_hdr_AB dgram_ck0) \<and>
   fst (udp_checksum (rx_buf ip_hdr_AB dgram_ck0) ip_A ip_B) = 0 \<and>
   sizeof_udp_hdr_t + sizeof_ip_hdr_t \<le> data (tx_buf 64 []) \<and>
   take 2 (drop 6 (contents (fst (udp_out ip_A (tx_buf 64 []) 60326 ip_B 53)))) = [0, 0]"
proof -
  have r: "sizeof_udp_hdr_t + sizeof_ip_hdr_t \<le> data (tx_buf 64 [])"
    by (simp add: sizeof_udp_hdr_t_def sizeof_ip_hdr_t_def)
  have r': "sizeof_ip_hdr_t \<le> data (tx_buf 64 [])"
    by (simp add: sizeof_ip_hdr_t_def)
  have a: "fst (udp_checksum (rx_buf ip_hdr_AB dgram_ck0) ip_A ip_B) = 0"
    using udp_checksum_raw_result [OF room_rx_buf [of dgram_ck0], where src_ip = ip_A
        and dst_ip = ip_B]
    by (simp add: ck_ck0)
  have b: "take 2 (drop 6 (contents (fst (udp_out ip_A (tx_buf 64 []) 60326 ip_B 53)))) = [0, 0]"
    using udp_checksum_raw_result [OF r', where src_ip = ip_A and dst_ip = ip_B
        and src_port = 60326 and dst_port = 53] r
    by (simp add: udp_header_ck0 ck_ck0) (simp add: bytes16_def)
  show ?thesis by (intro conjI room_rx_buf a r b)
qed

text \<open>
  Claim C9 (the buffer after a checksum failure), amended. When a buffer of at least 8
  bytes (with head-room) fails the checksum check, \<^verbatim>\<open>udp_in\<close> returns it with the length
  and \<open>data\<close> it had and with the checksum field zero: the observable bytes are the original
  ones with bytes 6 and 7 set to zero; the value read from the field on entry is not
  written back. So the buffer differs from the original exactly when the checksum field of
  the received datagram was not zero.
\<close>

theorem udp_in_checksum_failure_buffer:
  assumes "sizeof_ip_hdr_t \<le> data buf" "sizeof_udp_hdr_t \<le> len buf"
    and "\<not> checksum_ok buf src_ip net_if_ip"
  shows "len (fst (udp_in udp_table net_if_ip buf src_ip)) = len buf \<and>
         data (fst (udp_in udp_table net_if_ip buf src_ip)) = data buf \<and>
         load16 (store (fst (udp_in udp_table net_if_ip buf src_ip)))
           (data buf + off_checksum16) = 0 \<and>
         contents (fst (udp_in udp_table net_if_ip buf src_ip)) = (contents buf)[6 := 0, 7 := 0] \<and>
         (contents (fst (udp_in udp_table net_if_ip buf src_ip)) = contents buf \<longleftrightarrow>
            load16 (store buf) (data buf + off_checksum16) = 0)"
proof -
  let ?z = "zero_checksum buf"
  have e: "fst (udp_in udp_table net_if_ip buf src_ip) = ?z\<lparr>store := pad_store ?z\<rparr>"
    using assms(3) by (simp add: udp_in_eq [OF assms(1,2)])
  have c: "contents (?z\<lparr>store := pad_store ?z\<rparr>) = (contents buf)[6 := 0, 7 := 0]"
    by (simp add: contents_zero_checksum [OF assms(2)])
  have "load16 (pad_store ?z) (data ?z + off_checksum16) =
      load16 (store ?z) (data ?z + off_checksum16)"
    using assms(2) by (intro load16_pad_store) (simp add: off_checksum16_def sizeof_udp_hdr_t_def)
  then have f: "load16 (pad_store ?z) (data buf + off_checksum16) = 0"
    by (simp add: zero_checksum_def load16_store16)
  have l: "load16 (store buf) (data buf + off_checksum16) =
      word_cat (contents buf ! 7) (contents buf ! 6)"
    using assms(2) load16_contents [of 6 buf]
    by (simp add: off_checksum16_def sizeof_udp_hdr_t_def)
  have u: "(contents buf)[6 := 0, 7 := 0] = contents buf \<longleftrightarrow>
      contents buf ! 6 = 0 \<and> contents buf ! 7 = 0"
    using assms(2) by (intro list_update2_same_iff) (simp_all add: sizeof_udp_hdr_t_def)
  show ?thesis
    unfolding e c l u by (simp add: f word_cat_eq_0_iff)
qed

theorem udp_in_checksum_failure_buffer_witness:
  "sizeof_ip_hdr_t \<le> data (rx_buf ip_hdr_AB dgram_hk) \<and>
   sizeof_udp_hdr_t \<le> len (rx_buf ip_hdr_AB dgram_hk) \<and>
   \<not> checksum_ok (rx_buf ip_hdr_AB dgram_hk) ip_A ip_B \<and>
   contents (fst (udp_in table53 ip_B (rx_buf ip_hdr_AB dgram_hk) ip_A)) =
     [0x30, 0x39, 0, 53, 0, 10, 0, 0, 0x68, 0x6B] \<and>
   contents (fst (udp_in table53 ip_B (rx_buf ip_hdr_AB dgram_hk) ip_A)) \<noteq>
     contents (rx_buf ip_hdr_AB dgram_hk)"
proof -
  let ?b = "rx_buf ip_hdr_AB dgram_hk"
  have l: "sizeof_udp_hdr_t \<le> len ?b"
    by (simp add: sizeof_udp_hdr_t_def dgram_hk_def)
  note t = udp_in_checksum_failure_buffer [OF room_rx_buf l not_ok_hk, of table53]
  have c: "contents (fst (udp_in table53 ip_B ?b ip_A)) =
      [0x30, 0x39, 0, 53, 0, 10, 0, 0, 0x68, 0x6B]"
    using t by (simp add: dgram_hk_def)
  then have "contents (fst (udp_in table53 ip_B ?b ip_A)) \<noteq> contents ?b"
    by (simp add: dgram_hk_def)
  with c show ?thesis by (intro conjI room_rx_buf l not_ok_hk)
qed

text \<open>
  The claim as it was stated says that the buffer of every dropped datagram is changed. A
  datagram that arrives with a zero checksum field and fails the check is returned
  byte for byte as it came.
\<close>

theorem udp_in_checksum_failure_unchanged:
  "sizeof_udp_hdr_t \<le> len (rx_buf ip_hdr_AB dgram_nock) \<and>
   \<not> checksum_ok (rx_buf ip_hdr_AB dgram_nock) ip_A ip_B \<and>
   snd (udp_in table53 ip_B (rx_buf ip_hdr_AB dgram_nock) ip_A) = [] \<and>
   fst (udp_in table53 ip_B (rx_buf ip_hdr_AB dgram_nock) ip_A) = rx_buf ip_hdr_AB dgram_nock"
proof -
  let ?b = "rx_buf ip_hdr_AB dgram_nock"
  have l: "sizeof_udp_hdr_t \<le> len ?b"
    by (simp add: sizeof_udp_hdr_t_def dgram_nock_def)
  have z: "zero_checksum ?b = ?b"
    by (simp add: zero_checksum_def rx_buf_def fun_eq_iff store16_apply off_checksum16_def
        dgram_nock_def ip_hdr_AB_def)
  have p: "pad_store ?b = store ?b"
    by (simp add: pad_store_def dgram_nock_def)
  have "fst (udp_in table53 ip_B ?b ip_A) = ?b"
    using not_ok_nock by (simp add: udp_in_eq [OF room_rx_buf l] z p)
  moreover have "snd (udp_in table53 ip_B ?b ip_A) = []"
    using not_ok_nock by (simp add: udp_in_eq [OF room_rx_buf l])
  ultimately show ?thesis using l not_ok_nock by simp
qed

end
